theory Spec2Isabelle
  imports Main "HOL-Library.Word"
begin

unbundle bit_operations_syntax

section \<open>Real-mode TCE hypercalls (arch/powerpc/kvm/book3s\_64\_vio\_hv.c)\<close>

subsection \<open>Data model\<close>

type_synonym u64 = "64 word"

text \<open>
  The hypercall return codes of asm/hvcall.h. The header is not part of the sources at
  hand; the code only tests a return value against zero, and \<open>H_SUCCESS\<close> is the
  zero code, so \<^verbatim>\<open>if (ret)\<close> reads \<open>ret \<noteq> H_SUCCESS\<close>.
\<close>

datatype hret = H_SUCCESS | H_PARAMETER | H_TOO_HARD | H_HARDWARE

text \<open>
  \<^verbatim>\<open>struct kvmppc_spapr_tce_table\<close>: the fields the real-mode handlers read.
  \<open>groups\<close> lists \<^verbatim>\<open>kg->tbl\<close> of every attached group in list order (an
  \<^verbatim>\<open>iommu_table\<close> is named by a number); \<open>pages\<close> is the array of
  \<^verbatim>\<open>struct page *\<close>, again as numbers.
\<close>

record kvmppc_spapr_tce_table =
  liobn :: u64
  page_shift :: nat
  offset :: u64
  size_stt :: u64
  groups :: "nat list"
  pages :: "nat list"

text \<open>\<^verbatim>\<open>enum dma_data_direction\<close> (linux/dma-direction.h).\<close>

datatype dma_data_direction = DMA_BIDIRECTIONAL | DMA_TO_DEVICE | DMA_FROM_DEVICE | DMA_NONE

datatype errno = EINVAL | ENXIO | EAGAIN

text \<open>
  \<^verbatim>\<open>struct kvm_memory_slot\<close>: the first guest frame of the slot and the address of
  its \<^verbatim>\<open>arch.rmap\<close> array.
\<close>

record kvm_memory_slot =
  base_gfn :: u64
  arch_rmap :: u64

text \<open>A host page-table entry as \<^verbatim>\<open>kvmppc_rm_ua_to_hpa\<close> reads it.\<close>

record pte_t =
  pte_present :: bool
  pte_young :: bool
  pte_pfn :: u64

text \<open>
  What the handlers do to their collaborators, in the order they do it: the mapped
  counter of a pinned region going up or down, an exchange on the hardware table of an
  \<^verbatim>\<open>iommu_table\<close> (with whether it succeeded), the reverse-map lock.
\<close>

datatype event =
    EvMappedInc nat
  | EvMappedDec nat
  | EvXchg nat u64 bool
  | EvLockRmap u64
  | EvUnlockRmap u64

text \<open>
  The collaborators of this file, none of which is in the sources at hand, are taken as
  parameters: the constants of asm/page.h and asm/tce.h (both \<^verbatim>\<open>int\<close>
  expressions in C), the table list of the VM, the memory slots, the host page table,
  the registry of pinned regions, the descriptors and the pre-flight checks of the
  \<^verbatim>\<open>iommu_table\<close>s, and the guest memory holding an indirect list.
  A pointer is a \<open>u64\<close> with 0 for \<^verbatim>\<open>NULL\<close>; a check that returns
  non-zero in C is \<open>True\<close> here.
\<close>

record rm_env =
  PAGE_SHIFT :: nat
  TCE_PCI_WRITE :: "32 word"
  TCE_PCI_READ :: "32 word"
  spapr_tce_tables :: "kvmppc_spapr_tce_table list"
  search_memslots :: "u64 \<Rightarrow> kvm_memory_slot option"
  gfn_to_hva_memslot :: "kvm_memory_slot \<Rightarrow> u64 \<Rightarrow> u64"
  real_vmalloc_addr :: "u64 \<Rightarrow> u64"
  find_linux_pte_or_hugepte :: "u64 \<Rightarrow> (pte_t \<times> nat) option"
  run_task_mm :: bool
  mm_iommu_preregistered :: bool
  mm_iommu_lookup_rm :: "u64 \<Rightarrow> u64 \<Rightarrow> nat option"
  mm_iommu_rm_ua_to_hpa :: "nat \<Rightarrow> u64 \<Rightarrow> u64 option"
  mapped_inc_fails :: "nat \<Rightarrow> int \<Rightarrow> bool"
  it_page_shift :: "nat \<Rightarrow> nat"
  IOMMU_TABLE_USERSPACE_ENTRY :: "nat \<Rightarrow> u64 \<Rightarrow> u64"
  xchg_fails :: "nat \<Rightarrow> u64 \<Rightarrow> bool"
  iommu_tce_clear_param_check :: "nat \<Rightarrow> u64 \<Rightarrow> u64 \<Rightarrow> u64 \<Rightarrow> bool"
  iommu_tce_put_param_check :: "nat \<Rightarrow> u64 \<Rightarrow> u64 \<Rightarrow> bool"
  iommu_tce_direction :: "u64 \<Rightarrow> dma_data_direction"
  tces_mem :: "u64 \<Rightarrow> nat \<Rightarrow> u64"

text \<open>
  What the handlers change: the contents of the pages of the entry stores (page, slot),
  \<^verbatim>\<open>vcpu->arch.gpr[4]\<close>, the hardware tables (table, entry) with the host
  address and direction installed, the memory of the \<^verbatim>\<open>it_userspace\<close> arrays
  (by address), the mapped counter of every pinned region, and the trace of events.
\<close>

record rm_state =
  page_mem :: "nat \<Rightarrow> nat \<Rightarrow> u64"
  gpr4 :: u64
  hw_tce :: "nat \<Rightarrow> u64 \<Rightarrow> u64 \<times> dma_data_direction"
  ua_mem :: "u64 \<Rightarrow> u64"
  mapped :: "nat \<Rightarrow> int"
  trace :: "event list"

subsection \<open>Constants\<close>

definition PAGE_MASK :: "rm_env \<Rightarrow> 32 word" where
  "PAGE_MASK env = NOT (push_bit (PAGE_SHIFT env) 1 - 1)"

text \<open>\<^verbatim>\<open>#define TCES_PER_PAGE (PAGE_SIZE / sizeof(u64))\<close>\<close>

definition TCES_PER_PAGE :: "rm_env \<Rightarrow> nat" where
  "TCES_PER_PAGE env = 2 ^ PAGE_SHIFT env div 8"

text \<open>
  Modelled from the spec: \<^verbatim>\<open>IOMMU_PAGE_MASK_4K\<close> and
  \<^verbatim>\<open>IOMMU_PAGE_SIZE_4K\<close> of asm/iommu.h, which is not in the sources at hand:
  the mask and the size of a 4K page, the mask an \<^verbatim>\<open>int\<close> expression like
  \<^verbatim>\<open>PAGE_MASK\<close>.
\<close>

definition IOMMU_PAGE_MASK_4K :: "32 word" where
  "IOMMU_PAGE_MASK_4K = NOT (push_bit 12 1 - 1)"

definition IOMMU_PAGE_SIZE_4K :: u64 where
  "IOMMU_PAGE_SIZE_4K = push_bit 12 1"

subsection \<open>Collaborators with an effect\<close>

text \<open>
  Modelled from the spec: \<^verbatim>\<open>mm_iommu_mapped_inc\<close> and
  \<^verbatim>\<open>mm_iommu_mapped_dec\<close> of the pinned-memory registry, which are not in the
  sources at hand. The increment can fail (the parameter \<open>mapped_inc_fails\<close>
  decides, from the region and its counter) and then changes nothing; otherwise the
  counter goes up by one. The decrement takes one off. \<open>None\<close> is the failure.
\<close>

definition mm_iommu_mapped_inc :: "rm_env \<Rightarrow> nat \<Rightarrow> rm_state \<Rightarrow> rm_state option" where
  "mm_iommu_mapped_inc env mem s =
     (if mapped_inc_fails env mem (mapped s mem) then None
      else Some (s\<lparr> mapped := (mapped s)(mem := mapped s mem + 1),
                    trace := trace s @ [EvMappedInc mem] \<rparr>))"

definition mm_iommu_mapped_dec :: "nat \<Rightarrow> rm_state \<Rightarrow> rm_state" where
  "mm_iommu_mapped_dec mem s =
     s\<lparr> mapped := (mapped s)(mem := mapped s mem - 1),
        trace := trace s @ [EvMappedDec mem] \<rparr>"

text \<open>
  Modelled from the spec: \<^verbatim>\<open>iommu_tce_xchg_rm\<close> of the device-group
  collaborator, which is not in the sources at hand: one exchange that installs the new
  host address and direction and hands back the old ones. Whether it fails is the
  parameter \<open>xchg_fails\<close>; a failed exchange leaves the table and the caller's
  variables as they were. The result is (failed, hpa, dir, state).
\<close>

definition iommu_tce_xchg_rm ::
  "rm_env \<Rightarrow> nat \<Rightarrow> u64 \<Rightarrow> u64 \<Rightarrow> dma_data_direction \<Rightarrow> rm_state
     \<Rightarrow> bool \<times> u64 \<times> dma_data_direction \<times> rm_state" where
  "iommu_tce_xchg_rm env tbl entry hpa dir s =
     (if xchg_fails env tbl entry
      then (True, hpa, dir, s\<lparr> trace := trace s @ [EvXchg tbl entry False] \<rparr>)
      else (False, fst (hw_tce s tbl entry), snd (hw_tce s tbl entry),
            s\<lparr> hw_tce := (hw_tce s)(tbl := (hw_tce s tbl)(entry := (hpa, dir))),
               trace := trace s @ [EvXchg tbl entry True] \<rparr>))"

definition lock_rmap :: "u64 \<Rightarrow> rm_state \<Rightarrow> rm_state" where
  "lock_rmap rmap s = s\<lparr> trace := trace s @ [EvLockRmap rmap] \<rparr>"

definition unlock_rmap :: "u64 \<Rightarrow> rm_state \<Rightarrow> rm_state" where
  "unlock_rmap rmap s = s\<lparr> trace := trace s @ [EvUnlockRmap rmap] \<rparr>"

subsection \<open>Table lookup\<close>

definition kvmppc_find_table :: "rm_env \<Rightarrow> u64 \<Rightarrow> kvmppc_spapr_tce_table option" where
  "kvmppc_find_table env l = find (\<lambda>stt. liobn stt = l) (spapr_tce_tables env)"

subsection \<open>Validation\<close>

text \<open>
  \<^verbatim>\<open>(1 << stt->page_shift) - 1\<close> is computed in \<^verbatim>\<open>int\<close> and then widened
  to \<^verbatim>\<open>unsigned long\<close> with sign extension.
\<close>

definition ioba_mask :: "nat \<Rightarrow> u64" where
  "ioba_mask shift = scast (push_bit shift (1 :: 32 word) - 1)"

definition kvmppc_ioba_validate :: "kvmppc_spapr_tce_table \<Rightarrow> u64 \<Rightarrow> u64 \<Rightarrow> hret" where
  "kvmppc_ioba_validate stt ioba npages =
     (let mask = ioba_mask (page_shift stt);
          idx = drop_bit (page_shift stt) ioba
      in if ioba AND mask \<noteq> 0 \<or> idx < offset stt \<or>
            offset stt + size_stt stt + npages \<le> idx
         then H_PARAMETER else H_SUCCESS)"

text \<open>
  \<^verbatim>\<open>kvmppc_tce_validate\<close>: the mask is an \<^verbatim>\<open>int\<close> expression, widened
  with sign extension.
\<close>

definition kvmppc_tce_validate :: "rm_env \<Rightarrow> kvmppc_spapr_tce_table \<Rightarrow> u64 \<Rightarrow> hret" where
  "kvmppc_tce_validate env stt tce =
     (let mask = (scast ((push_bit (page_shift stt) (1 :: 32 word) - 1) AND
                     NOT (TCE_PCI_WRITE env OR TCE_PCI_READ env)) :: u64)
      in if tce AND mask \<noteq> 0 then H_PARAMETER else H_SUCCESS)"

subsection \<open>Entry store\<close>

text \<open>
  \<^verbatim>\<open>kvmppc_tce_put\<close>. The subtraction wraps, as it does on
  \<^verbatim>\<open>unsigned long\<close>. Reading \<^verbatim>\<open>stt->pages\<close> beyond its end is
  undefined in C: the model returns \<open>None\<close> there.
\<close>

definition kvmppc_tce_put ::
  "rm_env \<Rightarrow> kvmppc_spapr_tce_table \<Rightarrow> u64 \<Rightarrow> u64 \<Rightarrow> rm_state \<Rightarrow> rm_state option" where
  "kvmppc_tce_put env stt idx tce s =
     (let idx' = idx - offset stt;
          n = unat idx' div TCES_PER_PAGE env
      in if n < length (pages stt)
         then let page = pages stt ! n
              in Some (s\<lparr> page_mem := (page_mem s)
                        (page := (page_mem s page)(unat idx' mod TCES_PER_PAGE env := tce)) \<rparr>)
         else None)"

subsection \<open>Address translation\<close>

text \<open>
  \<^verbatim>\<open>kvmppc_gpa_to_ua\<close>; \<open>want_rmap\<close> says whether the caller passed a
  non-null \<^verbatim>\<open>prmap\<close>. \<open>Inl EINVAL\<close> is the return of \<^verbatim>\<open>-EINVAL\<close>.
\<close>

definition kvmppc_gpa_to_ua :: "rm_env \<Rightarrow> u64 \<Rightarrow> bool \<Rightarrow> errno + (u64 \<times> u64)" where
  "kvmppc_gpa_to_ua env gpa want_rmap =
     (let gfn = drop_bit (PAGE_SHIFT env) gpa
      in case search_memslots env gfn of
           None \<Rightarrow> Inl EINVAL
         | Some memslot \<Rightarrow>
             Inr (gfn_to_hva_memslot env memslot gfn OR
                    (gpa AND scast (NOT (PAGE_MASK env OR TCE_PCI_READ env OR TCE_PCI_WRITE env))),
                  if want_rmap
                  then real_vmalloc_addr env (arch_rmap memslot + 8 * (gfn - base_gfn memslot))
                  else 0))"

definition kvmppc_preregistered :: "rm_env \<Rightarrow> bool" where
  "kvmppc_preregistered env = (if \<not> run_task_mm env then False else mm_iommu_preregistered env)"

definition kvmppc_rm_iommu_lookup :: "rm_env \<Rightarrow> u64 \<Rightarrow> u64 \<Rightarrow> nat option" where
  "kvmppc_rm_iommu_lookup env ua sz =
     (if \<not> run_task_mm env then None else mm_iommu_lookup_rm env ua sz)"

definition kvmppc_rm_ua_to_hpa :: "rm_env \<Rightarrow> u64 \<Rightarrow> errno + u64" where
  "kvmppc_rm_ua_to_hpa env ua =
     (case find_linux_pte_or_hugepte env ua of
        None \<Rightarrow> Inl ENXIO
      | Some (pte, shift0) \<Rightarrow>
          if \<not> pte_present pte then Inl ENXIO
          else let shift = (if shift0 = 0 then PAGE_SHIFT env else shift0)
               in if shift > PAGE_SHIFT env then Inl EAGAIN
                  else if \<not> pte_young pte then Inl EAGAIN
                  else Inr (push_bit (PAGE_SHIFT env) (pte_pfn pte) OR
                            (ua AND scast (push_bit shift (1 :: 32 word) - 1)) OR
                            (ua AND scast (NOT (PAGE_MASK env)))))"

subsection \<open>Pinned-memory mapper\<close>

definition kvmppc_rm_tce_iommu_mapped_dec ::
  "rm_env \<Rightarrow> nat \<Rightarrow> u64 \<Rightarrow> rm_state \<Rightarrow> hret \<times> rm_state" where
  "kvmppc_rm_tce_iommu_mapped_dec env tbl entry s =
     (let pgsize = (push_bit (it_page_shift env tbl) 1 :: u64);
          pua = IOMMU_TABLE_USERSPACE_ENTRY env tbl entry
      in if pua = 0 then (H_SUCCESS, s)
         else let pua = real_vmalloc_addr env pua
              in if pua = 0 then (H_SUCCESS, s)
                 else case kvmppc_rm_iommu_lookup env (ua_mem s pua) pgsize of
                        None \<Rightarrow> (H_HARDWARE, s)
                      | Some mem \<Rightarrow>
                          (let s1 = mm_iommu_mapped_dec mem s
                           in (H_SUCCESS, s1\<lparr> ua_mem := (ua_mem s1)(pua := 0) \<rparr>)))"

definition kvmppc_rm_tce_iommu_unmap ::
  "rm_env \<Rightarrow> nat \<Rightarrow> u64 \<Rightarrow> rm_state \<Rightarrow> hret \<times> rm_state" where
  "kvmppc_rm_tce_iommu_unmap env tbl entry s =
     (case iommu_tce_xchg_rm env tbl entry 0 DMA_NONE s of
        (failed, hpa, dir, s1) \<Rightarrow>
          if failed then (H_HARDWARE, s1)
          else if dir = DMA_NONE then (H_SUCCESS, s1)
          else kvmppc_rm_tce_iommu_mapped_dec env tbl entry s1)"

text \<open>
  \<^verbatim>\<open>kvmppc_rm_tce_iommu_map\<close>. After the exchange \<open>dir\<close> holds the old
  direction; the result of \<^verbatim>\<open>kvmppc_rm_tce_iommu_mapped_dec\<close> is dropped, as in
  the source.
\<close>

definition kvmppc_rm_tce_iommu_map ::
  "rm_env \<Rightarrow> nat \<Rightarrow> u64 \<Rightarrow> u64 \<Rightarrow> dma_data_direction \<Rightarrow> rm_state \<Rightarrow> hret \<times> rm_state" where
  "kvmppc_rm_tce_iommu_map env tbl entry gpa dir s =
     (let pua = IOMMU_TABLE_USERSPACE_ENTRY env tbl entry
      in case kvmppc_gpa_to_ua env gpa False of
           Inl e \<Rightarrow> (H_HARDWARE, s)
         | Inr (ua, rmap) \<Rightarrow>
            (case kvmppc_rm_iommu_lookup env ua (push_bit (it_page_shift env tbl) 1) of
               None \<Rightarrow> (H_HARDWARE, s)
             | Some mem \<Rightarrow>
                (case mm_iommu_rm_ua_to_hpa env mem ua of
                   None \<Rightarrow> (H_HARDWARE, s)
                 | Some hpa \<Rightarrow>
                    (let pua = real_vmalloc_addr env pua
                     in if pua = 0 then (H_HARDWARE, s)
                        else case mm_iommu_mapped_inc env mem s of
                               None \<Rightarrow> (H_HARDWARE, s)
                             | Some s1 \<Rightarrow>
                                (case iommu_tce_xchg_rm env tbl entry hpa dir s1 of
                                   (failed, hpa', dir', s2) \<Rightarrow>
                                     if failed then (H_TOO_HARD, mm_iommu_mapped_dec mem s2)
                                     else let s3 = (if dir' \<noteq> DMA_NONE
                                                    then snd (kvmppc_rm_tce_iommu_mapped_dec env tbl entry s2)
                                                    else s2)
                                          in (H_SUCCESS, s3\<lparr> ua_mem := (ua_mem s3)(pua := ua) \<rparr>))))))"

subsection \<open>Per-table handlers\<close>

text \<open>\<^verbatim>\<open>~(TCE_PCI_READ | TCE_PCI_WRITE)\<close>, an \<^verbatim>\<open>int\<close> widened to 64 bits.\<close>

definition tce_gpa :: "rm_env \<Rightarrow> u64 \<Rightarrow> u64" where
  "tce_gpa env tce = tce AND scast (NOT (TCE_PCI_READ env OR TCE_PCI_WRITE env))"

definition kvmppc_rm_h_put_tce_iommu ::
  "rm_env \<Rightarrow> nat \<Rightarrow> u64 \<Rightarrow> u64 \<Rightarrow> u64 \<Rightarrow> rm_state \<Rightarrow> hret \<times> rm_state" where
  "kvmppc_rm_h_put_tce_iommu env tbl liobn' ioba tce s =
     (let entry = drop_bit (it_page_shift env tbl) ioba;
          gpa = tce_gpa env tce;
          dir = iommu_tce_direction env tce
      in if dir = DMA_NONE
         then (if iommu_tce_clear_param_check env tbl ioba 0 1 then (H_PARAMETER, s)
               else kvmppc_rm_tce_iommu_unmap env tbl entry s)
         else if iommu_tce_put_param_check env tbl ioba gpa then (H_PARAMETER, s)
         else kvmppc_rm_tce_iommu_map env tbl entry gpa dir s)"

text \<open>
  The two loops of \<^verbatim>\<open>kvmppc_rm_h_put_tce_indirect_iommu\<close>, over the indices
  \<open>0 ..< npages\<close>. The first returns whether some check failed.
\<close>

fun indirect_iommu_check :: "rm_env \<Rightarrow> nat \<Rightarrow> u64 \<Rightarrow> u64 \<Rightarrow> nat list \<Rightarrow> bool" where
  "indirect_iommu_check env tbl ioba tces [] = False"
| "indirect_iommu_check env tbl ioba tces (i # is) =
     (let gpa = tce_gpa env (tces_mem env tces i)
      in if iommu_tce_put_param_check env tbl
              (ioba + push_bit (it_page_shift env tbl) (of_nat i)) gpa
         then True
         else indirect_iommu_check env tbl ioba tces is)"

fun indirect_iommu_map ::
  "rm_env \<Rightarrow> nat \<Rightarrow> u64 \<Rightarrow> u64 \<Rightarrow> nat list \<Rightarrow> rm_state \<Rightarrow> hret \<times> rm_state" where
  "indirect_iommu_map env tbl entry tces [] s = (H_SUCCESS, s)"
| "indirect_iommu_map env tbl entry tces (i # is) s =
     (let tce = tces_mem env tces i;
          gpa = tce_gpa env tce
      in case kvmppc_rm_tce_iommu_map env tbl (entry + of_nat i) gpa
                (iommu_tce_direction env tce) s of
           (ret, s') \<Rightarrow>
             if ret \<noteq> H_SUCCESS then (ret, s')
             else indirect_iommu_map env tbl entry tces is s')"

definition kvmppc_rm_h_put_tce_indirect_iommu ::
  "rm_env \<Rightarrow> nat \<Rightarrow> u64 \<Rightarrow> u64 \<Rightarrow> u64 \<Rightarrow> rm_state \<Rightarrow> hret \<times> rm_state" where
  "kvmppc_rm_h_put_tce_indirect_iommu env tbl ioba tces npages s =
     (let entry = drop_bit (it_page_shift env tbl) ioba
      in if indirect_iommu_check env tbl ioba tces [0 ..< unat npages] then (H_PARAMETER, s)
         else indirect_iommu_map env tbl entry tces [0 ..< unat npages] s)"

text \<open>The loop of \<^verbatim>\<open>kvmppc_rm_h_stuff_tce_iommu\<close>: the result of each unmap is dropped.\<close>

fun stuff_iommu_unmap :: "rm_env \<Rightarrow> nat \<Rightarrow> u64 \<Rightarrow> nat list \<Rightarrow> rm_state \<Rightarrow> rm_state" where
  "stuff_iommu_unmap env tbl entry [] s = s"
| "stuff_iommu_unmap env tbl entry (i # is) s =
     stuff_iommu_unmap env tbl entry is
       (snd (kvmppc_rm_tce_iommu_unmap env tbl (entry + of_nat i) s))"

definition kvmppc_rm_h_stuff_tce_iommu ::
  "rm_env \<Rightarrow> nat \<Rightarrow> u64 \<Rightarrow> u64 \<Rightarrow> u64 \<Rightarrow> u64 \<Rightarrow> rm_state \<Rightarrow> hret \<times> rm_state" where
  "kvmppc_rm_h_stuff_tce_iommu env tbl liobn' ioba tce_value npages s =
     (let entry = drop_bit (it_page_shift env tbl) ioba
      in if iommu_tce_clear_param_check env tbl ioba tce_value npages then (H_PARAMETER, s)
         else (H_SUCCESS, stuff_iommu_unmap env tbl entry [0 ..< unat npages] s))"

subsection \<open>Hypercall handlers\<close>

text \<open>
  The loop that the three handlers share, word for word:
  \<^verbatim>\<open>
  list_for_each_entry_rcu_notrace(kg, &stt->groups, next) {
          if (kg->tbl == tbltmp)
                  continue;
          tbltmp = kg->tbl;
          ret = f(kg->tbl);
          if (ret)
                  return ret;
  }
  \<close>
  \<open>Inl\<close> is the \<^verbatim>\<open>return ret\<close> inside the loop; \<open>Inr\<close> is the loop
  running to its end, with the value \<open>ret\<close> then has.
\<close>

fun for_each_group ::
  "(nat \<Rightarrow> rm_state \<Rightarrow> hret \<times> rm_state) \<Rightarrow> nat list \<Rightarrow> nat option \<Rightarrow> hret \<Rightarrow> rm_state
     \<Rightarrow> (hret \<times> rm_state) + (hret \<times> rm_state)" where
  "for_each_group f [] tbltmp ret s = Inr (ret, s)"
| "for_each_group f (kg # kgs) tbltmp ret s =
     (if Some kg = tbltmp then for_each_group f kgs tbltmp ret s
      else case f kg s of
             (r, s') \<Rightarrow>
               if r \<noteq> H_SUCCESS then Inl (r, s')
               else for_each_group f kgs (Some kg) r s')"

text \<open>
  \<^verbatim>\<open>kvmppc_rm_h_put_tce\<close>. \<open>None\<close> is an access beyond
  \<^verbatim>\<open>stt->pages\<close>, here and below.
\<close>

definition kvmppc_rm_h_put_tce ::
  "rm_env \<Rightarrow> u64 \<Rightarrow> u64 \<Rightarrow> u64 \<Rightarrow> rm_state \<Rightarrow> (hret \<times> rm_state) option" where
  "kvmppc_rm_h_put_tce env liobn' ioba tce s =
     (case kvmppc_find_table env liobn' of
        None \<Rightarrow> Some (H_TOO_HARD, s)
      | Some stt \<Rightarrow>
          if kvmppc_ioba_validate stt ioba 1 \<noteq> H_SUCCESS
          then Some (kvmppc_ioba_validate stt ioba 1, s)
          else if kvmppc_tce_validate env stt tce \<noteq> H_SUCCESS
          then Some (kvmppc_tce_validate env stt tce, s)
          else case for_each_group (\<lambda>tbl. kvmppc_rm_h_put_tce_iommu env tbl liobn' ioba tce)
                      (groups stt) None (kvmppc_tce_validate env stt tce) s of
                 Inl (ret, s1) \<Rightarrow> Some (ret, s1)
               | Inr (ret, s1) \<Rightarrow>
                   (case kvmppc_tce_put env stt (drop_bit (page_shift stt) ioba) tce s1 of
                      None \<Rightarrow> None
                    | Some s2 \<Rightarrow> Some (ret, s2)))"

text \<open>
  The last loop of \<^verbatim>\<open>kvmppc_rm_h_put_tce_indirect\<close>: validate an entry, store
  it, go on; a failed validation leaves the loop with the entries before it stored.
\<close>

fun indirect_store ::
  "rm_env \<Rightarrow> kvmppc_spapr_tce_table \<Rightarrow> u64 \<Rightarrow> u64 \<Rightarrow> nat list \<Rightarrow> hret \<Rightarrow> rm_state
     \<Rightarrow> (hret \<times> rm_state) option" where
  "indirect_store env stt entry tces [] ret s = Some (ret, s)"
| "indirect_store env stt entry tces (i # is) ret s =
     (let tce = tces_mem env tces i;
          r = kvmppc_tce_validate env stt tce
      in if r \<noteq> H_SUCCESS then Some (r, s)
         else case kvmppc_tce_put env stt (entry + of_nat i) tce s of
                None \<Rightarrow> None
              | Some s' \<Rightarrow> indirect_store env stt entry tces is r s')"

text \<open>
  \<^verbatim>\<open>kvmppc_rm_h_put_tce_indirect\<close>. On the path without pre-registered memory
  \<^verbatim>\<open>lock_rmap\<close> dereferences \<open>rmap\<close>: a null \<open>rmap\<close> is \<open>None\<close>.
\<close>

definition kvmppc_rm_h_put_tce_indirect ::
  "rm_env \<Rightarrow> u64 \<Rightarrow> u64 \<Rightarrow> u64 \<Rightarrow> u64 \<Rightarrow> rm_state \<Rightarrow> (hret \<times> rm_state) option" where
  "kvmppc_rm_h_put_tce_indirect env liobn' ioba tce_list npages s =
     (case kvmppc_find_table env liobn' of
        None \<Rightarrow> Some (H_TOO_HARD, s)
      | Some stt \<Rightarrow>
          let entry = drop_bit (page_shift stt) ioba
          in if npages > 512 then Some (H_PARAMETER, s)
             else if tce_list AND scast (NOT IOMMU_PAGE_MASK_4K) \<noteq> 0 then Some (H_PARAMETER, s)
             else if kvmppc_ioba_validate stt ioba npages \<noteq> H_SUCCESS
             then Some (kvmppc_ioba_validate stt ioba npages, s)
             else if kvmppc_preregistered env
             then (case kvmppc_gpa_to_ua env tce_list False of
                     Inl e \<Rightarrow> Some (H_TOO_HARD, s)
                   | Inr (ua, rmap) \<Rightarrow>
                      (case kvmppc_rm_iommu_lookup env ua IOMMU_PAGE_SIZE_4K of
                         None \<Rightarrow> Some (H_TOO_HARD, s)
                       | Some mem \<Rightarrow>
                          (case mm_iommu_rm_ua_to_hpa env mem ua of
                             None \<Rightarrow> Some (H_TOO_HARD, s)
                           | Some tces \<Rightarrow>
                              (case for_each_group
                                      (\<lambda>tbl. kvmppc_rm_h_put_tce_indirect_iommu env tbl ioba tces npages)
                                      (groups stt) None (kvmppc_ioba_validate stt ioba npages) s of
                                 Inl (ret, s1) \<Rightarrow> Some (ret, s1)
                               | Inr (ret, s1) \<Rightarrow>
                                   indirect_store env stt entry tces [0 ..< unat npages] ret s1))))
             else (case kvmppc_gpa_to_ua env tce_list True of
                     Inl e \<Rightarrow> Some (H_TOO_HARD, s)
                   | Inr (ua, rmap) \<Rightarrow>
                       if rmap = 0 then None
                       else let s1 = lock_rmap rmap s
                            in case kvmppc_rm_ua_to_hpa env ua of
                                 Inl e \<Rightarrow> Some (H_TOO_HARD, unlock_rmap rmap s1)
                               | Inr tces \<Rightarrow>
                                  (case indirect_store env stt entry tces [0 ..< unat npages]
                                          (kvmppc_ioba_validate stt ioba npages) s1 of
                                     None \<Rightarrow> None
                                   | Some (ret, s2) \<Rightarrow> Some (ret, unlock_rmap rmap s2))))"

text \<open>
  The last loop of \<^verbatim>\<open>kvmppc_rm_h_stuff_tce\<close>, \<open>n\<close> iterations left:
  \<^verbatim>\<open>ioba += (1 << stt->page_shift)\<close> adds an \<^verbatim>\<open>int\<close>, widened.
\<close>

fun stuff_store ::
  "rm_env \<Rightarrow> kvmppc_spapr_tce_table \<Rightarrow> u64 \<Rightarrow> u64 \<Rightarrow> nat \<Rightarrow> rm_state \<Rightarrow> rm_state option" where
  "stuff_store env stt ioba tce_value 0 s = Some s"
| "stuff_store env stt ioba tce_value (Suc n) s =
     (case kvmppc_tce_put env stt (drop_bit (page_shift stt) ioba) tce_value s of
        None \<Rightarrow> None
      | Some s' \<Rightarrow>
          stuff_store env stt (ioba + scast (push_bit (page_shift stt) (1 :: 32 word)))
            tce_value n s')"

definition kvmppc_rm_h_stuff_tce ::
  "rm_env \<Rightarrow> u64 \<Rightarrow> u64 \<Rightarrow> u64 \<Rightarrow> u64 \<Rightarrow> rm_state \<Rightarrow> (hret \<times> rm_state) option" where
  "kvmppc_rm_h_stuff_tce env liobn' ioba tce_value npages s =
     (case kvmppc_find_table env liobn' of
        None \<Rightarrow> Some (H_TOO_HARD, s)
      | Some stt \<Rightarrow>
          if kvmppc_ioba_validate stt ioba npages \<noteq> H_SUCCESS
          then Some (kvmppc_ioba_validate stt ioba npages, s)
          else if kvmppc_tce_validate env stt tce_value \<noteq> H_SUCCESS \<or>
                  tce_value AND scast (TCE_PCI_WRITE env OR TCE_PCI_READ env) \<noteq> 0
          then Some (H_PARAMETER, s)
          else case for_each_group
                      (\<lambda>tbl. kvmppc_rm_h_stuff_tce_iommu env tbl liobn' ioba tce_value npages)
                      (groups stt) None (kvmppc_tce_validate env stt tce_value) s of
                 Inl (ret, s1) \<Rightarrow> Some (ret, s1)
               | Inr (ret, s1) \<Rightarrow>
                   (case stuff_store env stt ioba tce_value (unat npages) s1 of
                      None \<Rightarrow> None
                    | Some s2 \<Rightarrow> Some (H_SUCCESS, s2)))"

text \<open>\<^verbatim>\<open>kvmppc_h_get_tce\<close>: the entry read goes to \<^verbatim>\<open>vcpu->arch.gpr[4]\<close>.\<close>

definition kvmppc_h_get_tce ::
  "rm_env \<Rightarrow> u64 \<Rightarrow> u64 \<Rightarrow> rm_state \<Rightarrow> (hret \<times> rm_state) option" where
  "kvmppc_h_get_tce env liobn' ioba s =
     (case kvmppc_find_table env liobn' of
        None \<Rightarrow> Some (H_TOO_HARD, s)
      | Some stt \<Rightarrow>
          if kvmppc_ioba_validate stt ioba 1 = H_SUCCESS
          then let idx = drop_bit (page_shift stt) ioba - offset stt;
                   n = unat idx div TCES_PER_PAGE env
               in if n < length (pages stt)
                  then Some (H_SUCCESS,
                             s\<lparr> gpr4 := page_mem s (pages stt ! n) (unat idx mod TCES_PER_PAGE env) \<rparr>)
                  else None
          else Some (kvmppc_ioba_validate stt ioba 1, s))"

section \<open>Vcore exit coordination (arch/powerpc/kvm/book3s\_hv\_builtin.c)\<close>

text \<open>
  \<^verbatim>\<open>struct kvmppc_vcore\<close>: the first cpu of the core and the entry/exit map, both
  \<^verbatim>\<open>int\<close>. The map holds the threads in the guest in its low eight bits and
  everything about exiting above them.
\<close>

record kvmppc_vcore =
  pcpu :: "32 word"
  entry_exit_map :: "32 word"

text \<open>
  The vcores by number, and the inter-processor interrupts sent so far: each is the
  cpu that \<^verbatim>\<open>kvmhv_rm_send_ipi\<close> was given, with the vcore whose
  \<^verbatim>\<open>kvmhv_interrupt_vcore\<close> call sent it.
\<close>

record hv_state =
  vcores :: "nat \<Rightarrow> kvmppc_vcore"
  ipis :: "(nat \<times> 32 word) list"

text \<open>
  \<^verbatim>\<open>local_paca->kvm_hstate\<close>: the caller's vcore, its thread number, and the
  \<^verbatim>\<open>master_vcs\<close> array of the split-mode descriptor when there is one.
\<close>

record kvmppc_host_state =
  kvm_vcore :: nat
  ptid :: nat
  kvm_split_mode :: "(nat \<Rightarrow> nat option) option"

text \<open>Constants of headers that are not in the sources at hand, as parameters.\<close>

record hv_consts =
  BOOK3S_INTERRUPT_HV_DECREMENTER :: "32 word"
  VCORE_EXIT_REQ :: "32 word"
  MAX_SUBCORES :: nat

text \<open>
  The loop of \<^verbatim>\<open>kvmhv_interrupt_vcore\<close>:
  \<^verbatim>\<open>for (; active; active >>= 1, ++cpu) if (active & 1) kvmhv_rm_send_ipi(cpu);\<close>
  The shift of an \<^verbatim>\<open>int\<close> is arithmetic, so the loop does not end on a
  negative \<open>active\<close>: not returning is \<open>None\<close>.
\<close>

partial_function (option) interrupt_loop ::
  "nat \<Rightarrow> 32 word \<Rightarrow> 32 word \<Rightarrow> (nat \<times> 32 word) list \<Rightarrow> (nat \<times> 32 word) list option" where
  "interrupt_loop vc active cpu sent =
     (if active = 0 then Some sent
      else interrupt_loop vc (signed_drop_bit 1 active) (cpu + 1)
             (if active AND 1 \<noteq> 0 then sent @ [(vc, cpu)] else sent))"

definition kvmhv_interrupt_vcore :: "nat \<Rightarrow> 32 word \<Rightarrow> hv_state \<Rightarrow> hv_state option" where
  "kvmhv_interrupt_vcore vc active s =
     (case interrupt_loop vc active (pcpu (vcores s vc)) (ipis s) of
        None \<Rightarrow> None
      | Some sent \<Rightarrow> Some (s\<lparr> ipis := sent \<rparr>))"

text \<open>
  A compare-and-exchange loop is modelled at the iteration that succeeds: \<open>ee\<close> is
  the value of the map just before the caller's own update.
\<close>

definition set_entry_exit_map :: "nat \<Rightarrow> 32 word \<Rightarrow> hv_state \<Rightarrow> hv_state" where
  "set_entry_exit_map vc v s =
     s\<lparr> vcores := (vcores s)(vc := (vcores s vc)\<lparr> entry_exit_map := v \<rparr>) \<rparr>"

text \<open>A vcore is exiting when anything is set above the low eight bits of its map.\<close>

definition exiting :: "hv_state \<Rightarrow> nat \<Rightarrow> bool" where
  "exiting s v = (signed_drop_bit 8 (entry_exit_map (vcores s v)) \<noteq> 0)"

text \<open>The loop over the other subcores, for the indices \<open>0 ..< MAX_SUBCORES\<close>.\<close>

fun subcores_exit ::
  "hv_consts \<Rightarrow> (nat \<Rightarrow> nat option) \<Rightarrow> nat list \<Rightarrow> hv_state \<Rightarrow> hv_state option" where
  "subcores_exit c master_vcs [] s = Some s"
| "subcores_exit c master_vcs (i # is) s =
     (case master_vcs i of
        None \<Rightarrow> Some s
      | Some vc \<Rightarrow>
          let ee = entry_exit_map (vcores s vc)
          in if signed_drop_bit 8 ee \<noteq> 0 then subcores_exit c master_vcs is s
             else case kvmhv_interrupt_vcore vc ee
                         (set_entry_exit_map vc (ee OR VCORE_EXIT_REQ c) s) of
                    None \<Rightarrow> None
                  | Some s' \<Rightarrow> subcores_exit c master_vcs is s')"

definition kvmhv_commence_exit ::
  "hv_consts \<Rightarrow> kvmppc_host_state \<Rightarrow> 32 word \<Rightarrow> hv_state \<Rightarrow> hv_state option" where
  "kvmhv_commence_exit c paca trap s =
     (let vc = kvm_vcore paca;
          me = push_bit (ptid paca) (0x100 :: 32 word);
          ee = entry_exit_map (vcores s vc);
          s1 = set_entry_exit_map vc (ee OR me) s
      in if signed_drop_bit 8 ee \<noteq> 0 then Some s1
         else case (if trap \<noteq> BOOK3S_INTERRUPT_HV_DECREMENTER c
                    then kvmhv_interrupt_vcore vc (ee AND NOT (push_bit (ptid paca) 1)) s1
                    else Some s1) of
                None \<Rightarrow> None
              | Some s2 \<Rightarrow>
                 (case kvm_split_mode paca of
                    None \<Rightarrow> Some s2
                  | Some master_vcs \<Rightarrow>
                      subcores_exit c master_vcs [0 ..< MAX_SUBCORES c] s2))"

section \<open>Names used in the statements\<close>

text \<open>
  The pinned region that \<^verbatim>\<open>kvmppc_rm_tce_iommu_map\<close> looks up for the new mapping,
  and the one that \<^verbatim>\<open>kvmppc_rm_tce_iommu_mapped_dec\<close> looks up from the address
  recorded for the entry.
\<close>

definition new_region :: "rm_env \<Rightarrow> nat \<Rightarrow> u64 \<Rightarrow> nat option" where
  "new_region env tbl gpa =
     (case kvmppc_gpa_to_ua env gpa False of
        Inl e \<Rightarrow> None
      | Inr (ua, rmap) \<Rightarrow> kvmppc_rm_iommu_lookup env ua (push_bit (it_page_shift env tbl) 1))"

definition old_region :: "rm_env \<Rightarrow> nat \<Rightarrow> u64 \<Rightarrow> rm_state \<Rightarrow> nat option" where
  "old_region env tbl entry s =
     kvmppc_rm_iommu_lookup env
       (ua_mem s (real_vmalloc_addr env (IOMMU_TABLE_USERSPACE_ENTRY env tbl entry)))
       (push_bit (it_page_shift env tbl) 1)"

section \<open>Concrete inputs\<close>

text \<open>A window of one 4K entry at index 0, with no group and one backing page.\<close>

definition stt_one :: kvmppc_spapr_tce_table where
  "stt_one = \<lparr> liobn = 1, page_shift = 12, offset = 0, size_stt = 1, groups = [], pages = [0] \<rparr>"

text \<open>
  Four threads on the cpus 8 to 11 share vcore 0: A (thread 0), B and C are in the guest,
  D has left it, nobody has acknowledged an exit. A takes an external interrupt (0x500).
\<close>

definition hv_consts0 :: hv_consts where
  "hv_consts0 = \<lparr> BOOK3S_INTERRUPT_HV_DECREMENTER = 0x980, VCORE_EXIT_REQ = 0x10000,
                   MAX_SUBCORES = 4 \<rparr>"

definition hv_four :: hv_state where
  "hv_four = \<lparr> vcores = (\<lambda>v. \<lparr> pcpu = 8, entry_exit_map = 7 \<rparr>), ipis = [] \<rparr>"

definition paca_A :: kvmppc_host_state where
  "paca_A = \<lparr> kvm_vcore = 0, ptid = 0, kvm_split_mode = None \<rparr>"

text \<open>
  A VM with one table of four 4K entries, backed by one page and attached to the hardware
  tables 1 and 2; 64K host pages; all guest memory pre-registered as the pinned region
  0; every collaborator succeeds. Every entry of an indirect list reads 0x20003: the
  address 0x20000 with both direction flags.
\<close>

definition tce_direction :: "u64 \<Rightarrow> dma_data_direction" where
  "tce_direction tce =
     (if tce AND 1 \<noteq> 0 \<and> tce AND 2 \<noteq> 0 then DMA_BIDIRECTIONAL
      else if tce AND 1 \<noteq> 0 then DMA_TO_DEVICE
      else if tce AND 2 \<noteq> 0 then DMA_FROM_DEVICE
      else DMA_NONE)"

definition stt_dev :: kvmppc_spapr_tce_table where
  "stt_dev = \<lparr> liobn = 1, page_shift = 12, offset = 0, size_stt = 4, groups = [1, 2],
               pages = [0] \<rparr>"

definition env0 :: rm_env where
  "env0 = \<lparr> PAGE_SHIFT = 16, TCE_PCI_WRITE = 2, TCE_PCI_READ = 1,
            spapr_tce_tables = [stt_dev],
            search_memslots = (\<lambda>gfn. Some \<lparr> base_gfn = 0, arch_rmap = 0x1000 \<rparr>),
            gfn_to_hva_memslot = (\<lambda>slot gfn. 0x10000000 + push_bit 16 (gfn - base_gfn slot)),
            real_vmalloc_addr = (\<lambda>a. a),
            find_linux_pte_or_hugepte =
              (\<lambda>ua. Some (\<lparr> pte_present = True, pte_young = True, pte_pfn = drop_bit 16 ua \<rparr>, 0)),
            run_task_mm = True,
            mm_iommu_preregistered = True,
            mm_iommu_lookup_rm = (\<lambda>ua sz. Some 0),
            mm_iommu_rm_ua_to_hpa = (\<lambda>mem ua. Some ua),
            mapped_inc_fails = (\<lambda>mem n. False),
            it_page_shift = (\<lambda>tbl. 12),
            IOMMU_TABLE_USERSPACE_ENTRY = (\<lambda>tbl entry. 0x8000 + 0x1000 * of_nat tbl + 8 * entry),
            xchg_fails = (\<lambda>tbl entry. False),
            iommu_tce_clear_param_check = (\<lambda>tbl ioba tce_value npages. False),
            iommu_tce_put_param_check = (\<lambda>tbl ioba gpa. False),
            iommu_tce_direction = tce_direction,
            tces_mem = (\<lambda>tces i. 0x20003) \<rparr>"

definition rm_state0 :: rm_state where
  "rm_state0 = \<lparr> page_mem = (\<lambda>page slot. 0), gpr4 = 0, hw_tce = (\<lambda>tbl entry. (0, DMA_NONE)),
                 ua_mem = (\<lambda>a. 0), mapped = (\<lambda>mem. 1), trace = [] \<rparr>"

text \<open>The same VM, except that the pre-flight check of table 2 refuses every entry.\<close>

definition env_second_fails :: rm_env where
  "env_second_fails = env0\<lparr> iommu_tce_put_param_check := (\<lambda>tbl ioba gpa. tbl = 2) \<rparr>"

text \<open>The state after table 1 has taken the entry 0x20003 at I/O address 0.\<close>

definition rm_state1 :: rm_state where
  "rm_state1 = snd (kvmppc_rm_h_put_tce_iommu env_second_fails 1 1 0 0x20003 rm_state0)"

text \<open>
  The same VM, except that the pre-flight check of table 2 refuses the entry for I/O
  address 0x1000 and accepts every other.
\<close>

definition env_entry_refused :: rm_env where
  "env_entry_refused =
     env0\<lparr> iommu_tce_put_param_check := (\<lambda>tbl ioba gpa. tbl = 2 \<and> ioba = 0x1000) \<rparr>"

text \<open>
  The state after table 1 has taken, through the indirect path, the two-entry list at
  host address 0x10030000 for the I/O addresses 0 and 0x1000.
\<close>

definition rm_state_two :: rm_state where
  "rm_state_two =
     snd (kvmppc_rm_h_put_tce_indirect_iommu env_entry_refused 1 0 0x10030000 2 rm_state0)"

text \<open>The same VM again, with guest memory that is not pre-registered.\<close>

definition env_not_registered :: rm_env where
  "env_not_registered = env_entry_refused\<lparr> mm_iommu_preregistered := False \<rparr>"

text \<open>The state in which PutIndirect of that list leaves this last VM.\<close>

definition rm_state_stored :: rm_state where
  "rm_state_stored =
     (case kvmppc_rm_h_put_tce_indirect env_not_registered 1 0 0x30000 2 rm_state0 of
        None \<Rightarrow> rm_state0
      | Some (r, s) \<Rightarrow> s)"

text \<open>The same VM after its pinned region has gone from the registry.\<close>

definition env_gone :: rm_env where
  "env_gone = env0\<lparr> mm_iommu_lookup_rm := (\<lambda>ua sz. None) \<rparr>"

text \<open>
  Entry 0 of table 1 maps the user address 0x10020000 in both directions; the address
  is recorded in the slot 0x9000 of the table's userspace array.
\<close>

definition rm_state_mapped :: rm_state where
  "rm_state_mapped =
     \<lparr> page_mem = (\<lambda>page slot. 0), gpr4 = 0,
       hw_tce = (\<lambda>tbl entry. if tbl = 1 \<and> entry = 0 then (0x10020000, DMA_BIDIRECTIONAL)
                              else (0, DMA_NONE)),
       ua_mem = (\<lambda>a. if a = 0x9000 then 0x10020000 else 0),
       mapped = (\<lambda>mem. 2), trace = [] \<rparr>"

text \<open>The same VM without any table.\<close>

definition env_no_table :: rm_env where
  "env_no_table = env0\<lparr> spapr_tce_tables := [] \<rparr>"

text \<open>The same state with 0x20003 in every slot of the entry store.\<close>

definition rm_state_full :: rm_state where
  "rm_state_full = rm_state_mapped\<lparr> page_mem := (\<lambda>page slot. 0x20003) \<rparr>"

section \<open>Validation of I/O addresses\<close>

text \<open>
  C1 (the code at the failing input). The window of \<open>stt_one\<close> is the single index 0.
  The address 0x1000 is aligned and has index 1, outside the window, and
  \<open>kvmppc_ioba_validate\<close> accepts it for one page: the upper bound tested is
  \<open>offset + size + npages \<le> idx\<close>.
\<close>

theorem kvmppc_ioba_validate_accepts_outside_window:
  "drop_bit (page_shift stt_one) (0x1000 :: u64) = 1
   \<and> offset stt_one + size_stt stt_one = 1
   \<and> kvmppc_ioba_validate stt_one 0x1000 1 = H_SUCCESS"
  by (simp add: kvmppc_ioba_validate_def stt_one_def ioba_mask_def drop_bit_eq_div word_le_nat_alt)

theorem kvmppc_ioba_validate_accepts_outside_window_witness:
  "kvmppc_ioba_validate stt_one 0x1000 1 \<noteq> H_PARAMETER"
  using kvmppc_ioba_validate_accepts_outside_window by simp

text \<open>
  What the validation does check, for a page shift whose \<^verbatim>\<open>1 << page_shift\<close> fits an
  \<^verbatim>\<open>int\<close>: a misaligned address and an index below the window are refused; the
  upper bound accepted is \<open>offset + size + npages\<close>, computed modulo \<open>2^64\<close>.
\<close>

lemma ioba_mask_eq: "sh < 31 \<Longrightarrow> ioba_mask sh = mask sh"
  unfolding ioba_mask_def
  apply (rule bit_word_eqI)
  apply (auto simp add: bit_simps mask_eq_exp_minus_1 [symmetric] simp flip: push_bit_eq_mult)
  done

lemma kvmppc_ioba_validate_rejects:
  assumes "page_shift stt < 31"
      and "ioba AND mask (page_shift stt) \<noteq> 0 \<or> drop_bit (page_shift stt) ioba < offset stt"
  shows "kvmppc_ioba_validate stt ioba npages = H_PARAMETER"
  using assms by (auto simp add: kvmppc_ioba_validate_def ioba_mask_eq Let_def)

lemma kvmppc_ioba_validate_success_iff:
  assumes "page_shift stt < 31"
  shows "kvmppc_ioba_validate stt ioba npages = H_SUCCESS \<longleftrightarrow>
           ioba AND mask (page_shift stt) = 0 \<and>
           offset stt \<le> drop_bit (page_shift stt) ioba \<and>
           drop_bit (page_shift stt) ioba < offset stt + size_stt stt + npages"
  using assms by (auto simp add: kvmppc_ioba_validate_def ioba_mask_eq Let_def)

section \<open>Exit coordination\<close>

lemma bit_of_take_bit_self: "take_bit n (a::32 word) = a \<Longrightarrow> bit a i \<Longrightarrow> i < n"
  by (metis bit_take_bit_iff)

lemma sdrop1: "take_bit (Suc n) (a::32 word) = a \<Longrightarrow> Suc n \<le> 31 \<Longrightarrow> signed_drop_bit 1 a = drop_bit 1 a"
  apply (rule bit_word_eqI)
  apply (auto simp add: bit_signed_drop_bit_iff bit_drop_bit_eq dest: bit_of_take_bit_self)
  done

lemma drop1_take: "take_bit (Suc n) (a::32 word) = a \<Longrightarrow> take_bit n (drop_bit 1 a) = drop_bit 1 a"
  apply (rule bit_word_eqI)
  apply (auto simp add: bit_take_bit_iff bit_drop_bit_eq dest: bit_of_take_bit_self)
  done

lemma and1: "((a::32 word) AND 1 \<noteq> 0) = bit a 0"
  by (simp add: bit_iff_and_push_bit_not_eq_0)

lemma bits_list: "[f i. i \<leftarrow> [0..<Suc n], P i] = (if P 0 then [f 0] else []) @ [f (Suc i). i \<leftarrow> [0..<n], P (Suc i)]"
proof -
  have "[0..<Suc n] = 0 # map Suc [0..<n]"
    by (simp add: upt_conv_Cons map_Suc_upt del: upt_Suc)
  then show ?thesis by (simp add: comp_def del: upt_Suc)
qed

lemma sdrop8: "signed_drop_bit 8 (ee::32 word) = 0 \<Longrightarrow> take_bit 8 ee = ee"
proof (rule bit_word_eqI)
  fix i assume z: "signed_drop_bit 8 ee = 0" and i: "i < LENGTH(32)"
  have "\<not> bit ee i" if "8 \<le> i"
  proof -
    have "bit (signed_drop_bit 8 ee) (i - 8) = bit ee i" using that i
      by (auto simp add: bit_signed_drop_bit_iff)
    then show ?thesis using z by simp
  qed
  then show "bit (take_bit 8 ee) i = bit ee i"
    by (cases "8 \<le> i") (auto simp add: bit_take_bit_iff)
qed

lemma interrupt_loop_bounded:
  "take_bit n active = active \<Longrightarrow> n \<le> 31 \<Longrightarrow>
   interrupt_loop vc active cpu sent =
     Some (sent @ [(vc, cpu + of_nat i). i \<leftarrow> [0..<n], bit active i])"
proof (induction n arbitrary: active cpu sent)
  case 0
  then have "active = 0" by simp
  then show ?case by (simp add: interrupt_loop.simps)
next
  case (Suc n)
  show ?case
  proof (cases "active = 0")
    case True
    then show ?thesis by (simp add: interrupt_loop.simps del: upt_Suc)
  next
    case False
    have sd: "signed_drop_bit (Suc 0) active = drop_bit (Suc 0) active"
      using sdrop1 [OF Suc.prems] by simp
    have tb: "take_bit n (drop_bit (Suc 0) active) = drop_bit (Suc 0) active"
      using drop1_take [OF Suc.prems(1)] by simp
    have n: "n \<le> 31" using Suc.prems by simp
    have step: "interrupt_loop vc active cpu sent =
      interrupt_loop vc (drop_bit (Suc 0) active) (cpu + 1) (if bit active 0 then sent @ [(vc, cpu)] else sent)"
      using False by (subst interrupt_loop.simps) (simp add: sd and1)
    show ?thesis
      unfolding step Suc.IH [OF tb n] bits_list
      by (simp add: bit_drop_bit_eq ac_simps del: upt_Suc cong: if_cong)
  qed
qed

lemma kvmhv_interrupt_vcore_bounded:
  assumes "take_bit 8 active = active"
  shows "kvmhv_interrupt_vcore vc active s =
           Some (s\<lparr> ipis := ipis s @
                   [(vc, pcpu (vcores s vc) + of_nat i). i \<leftarrow> [0..<8], bit active i] \<rparr>)"
  using interrupt_loop_bounded [OF assms, of vc "pcpu (vcores s vc)" "ipis s"]
  by (simp add: kvmhv_interrupt_vcore_def)

lemma subcores_exit_total:
  "\<exists>s' extra. subcores_exit c master_vcs js s = Some s' \<and> ipis s' = ipis s @ extra \<and>
      (\<forall>e \<in> set extra. \<not> exiting s (fst e))"
proof (induction js arbitrary: s)
  case Nil
  show ?case by simp
next
  case (Cons j js)
  show ?case
  proof (cases "master_vcs j")
    case None
    then show ?thesis by simp
  next
    case (Some vc)
    let ?ee = "entry_exit_map (vcores s vc)"
    show ?thesis
    proof (cases "signed_drop_bit 8 ?ee = 0")
      case False
      then show ?thesis using Some Cons.IH [of s] by simp
    next
      case True
      let ?s1 = "set_entry_exit_map vc (?ee OR VCORE_EXIT_REQ c) s"
      let ?new = "[(vc, pcpu (vcores ?s1 vc) + of_nat i). i \<leftarrow> [0..<8], bit ?ee i]"
      let ?s2 = "?s1\<lparr> ipis := ipis ?s1 @ ?new \<rparr>"
      have iv: "kvmhv_interrupt_vcore vc ?ee ?s1 = Some ?s2"
        by (rule kvmhv_interrupt_vcore_bounded) (rule sdrop8 [OF True])
      obtain s' extra where r: "subcores_exit c master_vcs js ?s2 = Some s'"
        and i: "ipis s' = ipis ?s2 @ extra" and e: "\<forall>e \<in> set extra. \<not> exiting ?s2 (fst e)"
        using Cons.IH [of ?s2] by blast
      have bk: "\<not> exiting s v" if "\<not> exiting ?s2 v" for v
        using that True by (cases "v = vc") (simp_all add: exiting_def set_entry_exit_map_def)
      have "subcores_exit c master_vcs (j # js) s = Some s'"
        using Some True iv r by simp
      moreover have "ipis s' = ipis s @ (?new @ extra)"
        using i by (simp add: set_entry_exit_map_def)
      moreover have "\<forall>e \<in> set (?new @ extra). \<not> exiting s (fst e)"
        using e bk True by (auto simp add: exiting_def)
      ultimately show ?thesis by blast
    qed
  qed
qed

lemma me_exiting:
  assumes "p < 8"
  shows "signed_drop_bit 8 ((ee :: 32 word) OR push_bit p 0x100) \<noteq> 0"
proof -
  have "bit (signed_drop_bit 8 (ee OR push_bit p (0x100 :: 32 word))) p"
    using assms by (simp add: bit_signed_drop_bit_iff bit_or_iff bit_push_bit_iff)
  then show ?thesis by auto
qed

lemma active_bits:
  assumes "take_bit 8 (ee :: 32 word) = ee"
  shows "take_bit 8 (ee AND NOT (push_bit p 1)) = ee AND NOT (push_bit p 1)"
    and "i < 8 \<Longrightarrow> bit (ee AND NOT (push_bit p 1)) i = (bit ee i \<and> i \<noteq> p)"
proof -
  show "take_bit 8 (ee AND NOT (push_bit p 1)) = ee AND NOT (push_bit p 1)"
    by (rule bit_word_eqI) (use assms in \<open>auto simp add: bit_take_bit_iff bit_and_iff dest: bit_of_take_bit_self\<close>)
  show "i < 8 \<Longrightarrow> bit (ee AND NOT (push_bit p 1)) i = (bit ee i \<and> i \<noteq> p)"
    by (auto simp add: bit_and_iff bit_not_iff bit_push_bit_iff bit_1_iff bit_exp_iff)
qed

lemma filter_vc_concat:
  "filter (\<lambda>e. fst e = vc) [(vc, g i). i \<leftarrow> js, P i] = [(vc, g i). i \<leftarrow> js, P i]"
  by (induction js) simp_all

lemma filter_not_exiting:
  "\<forall>e \<in> set extra. \<not> exiting s (fst e) \<Longrightarrow> exiting s vc \<Longrightarrow>
     filter (\<lambda>e. fst e = vc) extra = []"
  by (induction extra) auto

lemma concat_map_bits_cong:
  "(\<And>i. i < n \<Longrightarrow> P i = Q i) \<Longrightarrow>
     [f i. i \<leftarrow> [0..<n], P i] = [f i. i \<leftarrow> [0..<n], Q i]"
  by (rule arg_cong [where f = concat]) (rule map_cong, simp_all)

text \<open>
  C7. Let \<open>ee\<close> be the map of the caller's vcore just before the caller's update, and
  let the caller's thread number be below 8. \<^verbatim>\<open>kvmhv_commence_exit\<close> returns, and
  it only adds to the interrupts sent. If the bits of \<open>ee\<close> above the entry map (the
  acknowledgements) are all zero and the trap is not the hypervisor decrementer, the
  interrupts it sends through its own vcore are, one each and in order, those to the
  cpus of the threads whose bit is set in the entry map, the caller's excepted. If
  these bits are not all zero it sends nothing at all; if the trap is the hypervisor
  decrementer it sends nothing through its own vcore.
\<close>

theorem kvmhv_commence_exit_notifies:
  assumes "ptid paca < 8"
  shows "\<exists>s' extra.
           kvmhv_commence_exit c paca trap s = Some s' \<and> ipis s' = ipis s @ extra \<and>
           (signed_drop_bit 8 (entry_exit_map (vcores s (kvm_vcore paca))) \<noteq> 0 \<longrightarrow> extra = []) \<and>
           filter (\<lambda>e. fst e = kvm_vcore paca) extra =
             (if signed_drop_bit 8 (entry_exit_map (vcores s (kvm_vcore paca))) = 0 \<and>
                 trap \<noteq> BOOK3S_INTERRUPT_HV_DECREMENTER c
              then [(kvm_vcore paca, pcpu (vcores s (kvm_vcore paca)) + of_nat i).
                      i \<leftarrow> [0..<8],
                      bit (entry_exit_map (vcores s (kvm_vcore paca))) i \<and> i \<noteq> ptid paca]
              else [])"
proof -
  let ?vc = "kvm_vcore paca"
  let ?ee = "entry_exit_map (vcores s ?vc)"
  let ?me = "push_bit (ptid paca) (0x100 :: 32 word)"
  let ?s1 = "set_entry_exit_map ?vc (?ee OR ?me) s"
  let ?act = "?ee AND NOT (push_bit (ptid paca) 1)"
  let ?new = "[(?vc, pcpu (vcores s ?vc) + of_nat i). i \<leftarrow> [0..<8], bit ?ee i \<and> i \<noteq> ptid paca]"
  show ?thesis
  proof (cases "signed_drop_bit 8 ?ee = 0")
    case False
    then have "kvmhv_commence_exit c paca trap s = Some ?s1"
      by (simp add: kvmhv_commence_exit_def Let_def)
    moreover have "ipis ?s1 = ipis s @ []"
      by (simp add: set_entry_exit_map_def)
    ultimately show ?thesis using False by fastforce
  next
    case True
    have tb: "take_bit 8 ?ee = ?ee" by (rule sdrop8 [OF True])
    have ex1: "exiting ?s1 ?vc"
      using me_exiting [OF assms] by (simp add: exiting_def set_entry_exit_map_def)
    define sent where "sent = (if trap \<noteq> BOOK3S_INTERRUPT_HV_DECREMENTER c then ?new else [])"
    define s2 where "s2 = ?s1\<lparr> ipis := ipis s @ sent \<rparr>"
    have pc: "pcpu (vcores ?s1 ?vc) = pcpu (vcores s ?vc)"
      by (simp add: set_entry_exit_map_def)
    have new: "[(?vc, pcpu (vcores ?s1 ?vc) + of_nat i). i \<leftarrow> [0..<8], bit ?act i] = ?new"
      unfolding pc by (rule concat_map_bits_cong [OF active_bits(2) [OF tb]])
    have first: "(if trap \<noteq> BOOK3S_INTERRUPT_HV_DECREMENTER c
                  then kvmhv_interrupt_vcore ?vc ?act ?s1 else Some ?s1) = Some s2"
      unfolding kvmhv_interrupt_vcore_bounded [OF active_bits(1) [OF tb]] new
      by (simp add: s2_def sent_def set_entry_exit_map_def)
    have ex2: "exiting s2 ?vc"
      using ex1 by (simp add: s2_def exiting_def)
    have fs: "filter (\<lambda>e. fst e = ?vc) sent = sent"
      by (simp add: sent_def filter_vc_concat)
    obtain s' extra where fin: "(case kvm_split_mode paca of None \<Rightarrow> Some s2
          | Some master_vcs \<Rightarrow> subcores_exit c master_vcs [0 ..< MAX_SUBCORES c] s2) = Some s'"
      and ip: "ipis s' = ipis s2 @ extra" and ne: "\<forall>e \<in> set extra. \<not> exiting s2 (fst e)"
    proof (cases "kvm_split_mode paca")
      case None
      then show ?thesis using that [of s2 "[]"] by simp
    next
      case (Some master_vcs)
      then show ?thesis
        using subcores_exit_total [of c master_vcs "[0 ..< MAX_SUBCORES c]" s2] that by auto
    qed
    have "kvmhv_commence_exit c paca trap s = Some s'"
      using True first fin by (simp add: kvmhv_commence_exit_def Let_def)
    moreover have "ipis s' = ipis s @ (sent @ extra)"
      using ip by (simp add: s2_def)
    moreover have "filter (\<lambda>e. fst e = ?vc) (sent @ extra) = sent"
      using fs filter_not_exiting [OF ne ex2] by simp
    ultimately show ?thesis using True by (auto simp add: sent_def)
  qed
qed

theorem kvmhv_commence_exit_notifies_witness:
  "ptid paca_A < 8 \<and>
   (\<exists>s' extra. kvmhv_commence_exit hv_consts0 paca_A 0x500 hv_four = Some s' \<and>
       ipis s' = ipis hv_four @ extra \<and>
       filter (\<lambda>e. fst e = kvm_vcore paca_A) extra = [(0, 9), (0, 10)])"
proof -
  have h: "ptid paca_A < 8" by (simp add: paca_A_def)
  have l: "[(0::nat, (8::32 word) + of_nat i). i \<leftarrow> [0..<8], bit (7::32 word) i \<and> i \<noteq> 0]
             = [(0, 9), (0, 10)]"
    by code_simp
  have z: "signed_drop_bit 8 (7 :: 32 word) = 0" by code_simp
  have vals: "kvm_vcore paca_A = 0" "ptid paca_A = 0" "entry_exit_map (vcores hv_four 0) = 7"
    "pcpu (vcores hv_four 0) = 8" "BOOK3S_INTERRUPT_HV_DECREMENTER hv_consts0 = 0x980"
    by (simp_all add: paca_A_def hv_four_def hv_consts0_def)
  obtain s' extra where a: "kvmhv_commence_exit hv_consts0 paca_A 0x500 hv_four = Some s'"
    and b: "ipis s' = ipis hv_four @ extra"
    and c: "filter (\<lambda>e. fst e = kvm_vcore paca_A) extra =
             (if signed_drop_bit 8 (entry_exit_map (vcores hv_four (kvm_vcore paca_A))) = 0 \<and>
                 0x500 \<noteq> BOOK3S_INTERRUPT_HV_DECREMENTER hv_consts0
              then [(kvm_vcore paca_A, pcpu (vcores hv_four (kvm_vcore paca_A)) + of_nat i).
                      i \<leftarrow> [0..<8],
                      bit (entry_exit_map (vcores hv_four (kvm_vcore paca_A))) i \<and> i \<noteq> ptid paca_A]
              else [])"
    using kvmhv_commence_exit_notifies [OF h, of hv_consts0 "0x500" hv_four] by blast
  have "filter (\<lambda>e. fst e = kvm_vcore paca_A) extra = [(0, 9), (0, 10)]"
    using c unfolding vals l z by simp
  then show ?thesis using h a b by blast
qed

section \<open>Entry store: a get after a put\<close>

lemma scast_step: "sh < 31 \<Longrightarrow> (scast (push_bit sh (1 :: 32 word)) :: u64) = push_bit sh 1"
  apply (rule bit_word_eqI)
  apply (auto simp add: bit_simps)
  done

lemma push_and_mask: "push_bit sh (idx :: u64) AND mask sh = 0"
  by (rule bit_word_eqI) (auto simp add: bit_simps)

lemma take_bit_unat_less: "unat (idx :: u64) < 2 ^ n \<Longrightarrow> take_bit n idx = idx"
  by (metis take_bit_nat_eq_self_iff unsigned_take_bit_eq word_eq_iff_unsigned)

lemma drop_push: 
  assumes "unat (idx :: u64) < 2 ^ (64 - sh)"
  shows "drop_bit sh (push_bit sh idx) = idx"
proof (rule bit_word_eqI)
  fix i assume "i < LENGTH(64)"
  have "i < 64 - sh" if "bit idx i"
    using take_bit_unat_less [OF assms] that by (metis bit_take_bit_iff)
  then show "bit (drop_bit sh (push_bit sh idx)) i = bit idx i"
    by (auto simp add: bit_simps)
qed

lemma pow_le_63: "0 < sh \<Longrightarrow> (2::nat) ^ (64 - sh) \<le> 2 ^ 63"
  by (rule power_increasing) simp_all

text \<open>An index inside the window: what the validation and the store compute for it.\<close>

lemma window_index:
  assumes sh: "0 < page_shift stt" "page_shift stt < 31"
      and win: "unat (offset stt) + unat (size_stt stt) \<le> 2 ^ (64 - page_shift stt)"
      and idx: "offset stt \<le> idx" "unat idx < unat (offset stt) + unat (size_stt stt)"
  shows "drop_bit (page_shift stt) (push_bit (page_shift stt) idx) = idx"
    and "kvmppc_ioba_validate stt (push_bit (page_shift stt) idx) 1 = H_SUCCESS"
    and "unat (idx - offset stt) < unat (size_stt stt)"
proof -
  have b: "unat idx < 2 ^ (64 - page_shift stt)" using win idx by simp
  show d: "drop_bit (page_shift stt) (push_bit (page_shift stt) idx) = idx"
    by (rule drop_push [OF b])
  have "unat (offset stt) + unat (size_stt stt) + 1 < 2 ^ 64"
    using win pow_le_63 [OF sh(1)] by simp
  then have u: "unat (offset stt + size_stt stt + 1) = unat (offset stt) + unat (size_stt stt) + 1"
    by (simp add: unat_word_ariths)
  have up: "\<not> offset stt + size_stt stt + 1 \<le> idx"
    using idx(2) u by (simp add: word_le_nat_alt)
  have lo: "\<not> idx < offset stt" using idx(1) by simp
  show "kvmppc_ioba_validate stt (push_bit (page_shift stt) idx) 1 = H_SUCCESS"
    using up lo by (simp add: kvmppc_ioba_validate_def d ioba_mask_eq [OF sh(2)] push_and_mask)
  show "unat (idx - offset stt) < unat (size_stt stt)"
    using idx by (simp add: unat_sub word_le_nat_alt)
qed

lemma kvmppc_tce_put_Some:
  assumes "unat (idx - offset stt) div TCES_PER_PAGE env < length (pages stt)"
  shows "kvmppc_tce_put env stt idx tce s =
           Some (s\<lparr> page_mem := (page_mem s)
                   (pages stt ! (unat (idx - offset stt) div TCES_PER_PAGE env) :=
                      (page_mem s (pages stt ! (unat (idx - offset stt) div TCES_PER_PAGE env)))
                        (unat (idx - offset stt) mod TCES_PER_PAGE env := tce)) \<rparr>)"
  using assms by (simp add: kvmppc_tce_put_def Let_def)

lemma covered:
  assumes "unat (sz :: u64) \<le> length ps * t" and "k < unat sz"
  shows "k div t < length ps"
  using assms by (simp add: less_mult_imp_div_less)

text \<open>
  C8. In a table whose window fits the 64-bit I/O address space and is covered by its
  pages, for every index \<open>idx\<close> of the window and every value \<open>v\<close> (validated or
  not), \<^verbatim>\<open>kvmppc_tce_put\<close> at \<open>idx\<close> succeeds and \<^verbatim>\<open>kvmppc_h_get_tce\<close> at
  the I/O address of \<open>idx\<close> then returns \<open>H_SUCCESS\<close> with \<open>v\<close> in
  \<^verbatim>\<open>gpr[4]\<close>.
\<close>

theorem kvmppc_tce_put_get_roundtrip:
  assumes find: "kvmppc_find_table env l = Some stt"
      and sh: "0 < page_shift stt" "page_shift stt < 31"
      and win: "unat (offset stt) + unat (size_stt stt) \<le> 2 ^ (64 - page_shift stt)"
      and cover: "unat (size_stt stt) \<le> length (pages stt) * TCES_PER_PAGE env"
      and idx: "offset stt \<le> idx" "unat idx < unat (offset stt) + unat (size_stt stt)"
  shows "\<exists>s'. kvmppc_tce_put env stt idx v s = Some s' \<and>
              kvmppc_h_get_tce env l (push_bit (page_shift stt) idx) s' =
                Some (H_SUCCESS, s'\<lparr> gpr4 := v \<rparr>)"
proof -
  note w = window_index [OF sh win idx]
  have n: "unat (idx - offset stt) div TCES_PER_PAGE env < length (pages stt)"
    by (rule covered [OF cover w(3)])
  show ?thesis
    unfolding kvmppc_tce_put_Some [OF n]
    using n by (simp add: kvmppc_h_get_tce_def find w(1,2) Let_def)
qed

lemma find0: "kvmppc_find_table env0 1 = Some stt_dev"
  by (simp add: kvmppc_find_table_def env0_def stt_dev_def)

lemma T0: "TCES_PER_PAGE env0 = 8192"
  by (simp add: TCES_PER_PAGE_def env0_def)

theorem kvmppc_tce_put_get_roundtrip_witness:
  "kvmppc_find_table env0 1 = Some stt_dev \<and> 0 < page_shift stt_dev \<and> page_shift stt_dev < 31 \<and>
   unat (offset stt_dev) + unat (size_stt stt_dev) \<le> 2 ^ (64 - page_shift stt_dev) \<and>
   unat (size_stt stt_dev) \<le> length (pages stt_dev) * TCES_PER_PAGE env0 \<and>
   offset stt_dev \<le> 3 \<and> unat (3 :: u64) < unat (offset stt_dev) + unat (size_stt stt_dev) \<and>
   (\<exists>s'. kvmppc_tce_put env0 stt_dev 3 0x20003 rm_state0 = Some s' \<and>
         kvmppc_h_get_tce env0 1 (push_bit (page_shift stt_dev) 3) s' =
           Some (H_SUCCESS, s'\<lparr> gpr4 := 0x20003 \<rparr>))"
proof -
  have h: "0 < page_shift stt_dev" "page_shift stt_dev < 31"
    "unat (offset stt_dev) + unat (size_stt stt_dev) \<le> 2 ^ (64 - page_shift stt_dev)"
    "unat (size_stt stt_dev) \<le> length (pages stt_dev) * TCES_PER_PAGE env0"
    "offset stt_dev \<le> 3" "unat (3 :: u64) < unat (offset stt_dev) + unat (size_stt stt_dev)"
    by (simp_all add: stt_dev_def T0)
  show ?thesis
    using find0 h kvmppc_tce_put_get_roundtrip [OF find0 h, of "0x20003" rm_state0] by blast
qed

section \<open>The handlers of the hardware tables leave the entry store alone\<close>

lemma page_mem_mapped_inc:
  "mm_iommu_mapped_inc env mem s = Some s' \<Longrightarrow> page_mem s' = page_mem s"
  by (auto simp add: mm_iommu_mapped_inc_def split: if_splits)

lemma page_mem_mapped_dec: "page_mem (mm_iommu_mapped_dec mem s) = page_mem s"
  by (simp add: mm_iommu_mapped_dec_def)

lemma page_mem_xchg:
  "page_mem (snd (snd (snd (iommu_tce_xchg_rm env tbl entry hpa dir s)))) = page_mem s"
  by (simp add: iommu_tce_xchg_rm_def)

lemma page_mem_tce_iommu_mapped_dec:
  "page_mem (snd (kvmppc_rm_tce_iommu_mapped_dec env tbl entry s)) = page_mem s"
  by (simp add: kvmppc_rm_tce_iommu_mapped_dec_def Let_def page_mem_mapped_dec
           split: option.splits)

lemma page_mem_unmap:
  "page_mem (snd (kvmppc_rm_tce_iommu_unmap env tbl entry s)) = page_mem s"
  using page_mem_xchg [of env tbl entry 0 DMA_NONE s]
  by (auto simp add: kvmppc_rm_tce_iommu_unmap_def page_mem_tce_iommu_mapped_dec
           split: prod.splits)

lemma page_mem_map:
  "page_mem (snd (kvmppc_rm_tce_iommu_map env tbl entry gpa dir s)) = page_mem s"
proof -
  have x: "page_mem s2 = page_mem s"
    if "mm_iommu_mapped_inc env mem s = Some s1"
       "iommu_tce_xchg_rm env tbl entry hpa dir s1 = (failed, hpa', dir', s2)"
    for mem s1 hpa failed hpa' dir' s2
    using page_mem_xchg [of env tbl entry hpa dir s1] page_mem_mapped_inc [OF that(1)] that(2)
    by simp
  show ?thesis
    by (auto simp add: kvmppc_rm_tce_iommu_map_def Let_def page_mem_mapped_dec
          page_mem_tce_iommu_mapped_dec x
        split: sum.splits option.splits prod.splits)
qed

lemma page_mem_put_tce_iommu:
  "page_mem (snd (kvmppc_rm_h_put_tce_iommu env tbl l ioba tce s)) = page_mem s"
  by (simp add: kvmppc_rm_h_put_tce_iommu_def Let_def page_mem_unmap page_mem_map)

lemma page_mem_indirect_iommu_map:
  "page_mem (snd (indirect_iommu_map env tbl entry tces js s)) = page_mem s"
proof (induction js arbitrary: s)
  case Nil
  show ?case by simp
next
  case (Cons j js)
  show ?case
    using page_mem_map [of env tbl "entry + of_nat j" "tce_gpa env (tces_mem env tces j)"
            "iommu_tce_direction env (tces_mem env tces j)" s]
    by (auto simp add: Let_def Cons.IH split: prod.splits)
qed

lemma page_mem_put_tce_indirect_iommu:
  "page_mem (snd (kvmppc_rm_h_put_tce_indirect_iommu env tbl ioba tces npages s)) = page_mem s"
  by (simp add: kvmppc_rm_h_put_tce_indirect_iommu_def Let_def page_mem_indirect_iommu_map)

lemma page_mem_stuff_iommu_unmap:
  "page_mem (stuff_iommu_unmap env tbl entry js s) = page_mem s"
  by (induction js arbitrary: s) (simp_all add: page_mem_unmap)

lemma page_mem_stuff_tce_iommu:
  "page_mem (snd (kvmppc_rm_h_stuff_tce_iommu env tbl l ioba v npages s)) = page_mem s"
  by (simp add: kvmppc_rm_h_stuff_tce_iommu_def Let_def page_mem_stuff_iommu_unmap)

section \<open>The loop over the groups\<close>

lemma for_each_group_page_mem:
  assumes f: "\<And>tbl s. page_mem (snd (f tbl s)) = page_mem s"
  shows "for_each_group f kgs tbltmp ret s = Inl (r, s') \<Longrightarrow> page_mem s' = page_mem s"
    and "for_each_group f kgs tbltmp ret s = Inr (r, s') \<Longrightarrow> page_mem s' = page_mem s"
proof (induction kgs arbitrary: tbltmp ret s)
  case Nil
  { case 1 then show ?case by simp }
  { case 2 then show ?case by simp }
next
  case (Cons kg kgs)
  { case 1
    then show ?case
      using f [of kg s] Cons.IH(1)
      by (auto split: if_splits prod.splits) }
  { case 2
    then show ?case
      using f [of kg s] Cons.IH(2)
      by (auto split: if_splits prod.splits) }
qed

text \<open>After a group, \<open>tbltmp\<close> is its table, whether the group was skipped or not.\<close>

lemma for_each_group_snoc:
  assumes "for_each_group f pre tbltmp ret s = Inr (r0, s1)"
      and "(if pre = [] then tbltmp else Some (last pre)) \<noteq> Some kg"
      and "f kg s1 = (r, s2)"
      and "r \<noteq> H_SUCCESS"
  shows "for_each_group f (pre @ kg # post) tbltmp ret s = Inl (r, s2)"
  using assms
proof (induction pre arbitrary: tbltmp ret s)
  case Nil
  then show ?case by auto
next
  case (Cons a pre)
  show ?case
  proof (cases "Some a = tbltmp")
    case True
    have l: "(if pre = [] then tbltmp else Some (last pre)) \<noteq> Some kg"
      using Cons.prems(2) True by (auto split: if_splits)
    show ?thesis
      using True Cons.prems(1) Cons.IH [OF _ l Cons.prems(3,4)] by simp
  next
    case False
    obtain ra sa where a: "f a s = (ra, sa)" by (cases "f a s")
    have ok: "ra = H_SUCCESS" and rest: "for_each_group f pre (Some a) ra sa = Inr (r0, s1)"
      using Cons.prems(1) False a by (auto split: if_splits)
    have l: "(if pre = [] then Some a else Some (last pre)) \<noteq> Some kg"
      using Cons.prems(2) by (auto split: if_splits)
    show ?thesis
      using False a ok Cons.IH [OF rest l Cons.prems(3,4)] by simp
  qed
qed

section \<open>Put\<close>

lemma for_each_group_Inr_ret:
  "for_each_group f kgs tbltmp ret s = Inr (r, s') \<Longrightarrow> ret = H_SUCCESS \<Longrightarrow> r = H_SUCCESS"
  by (induction kgs arbitrary: tbltmp ret s) (auto split: if_splits prod.splits)

lemma kvmppc_rm_h_put_tce_failure_keeps_store:
  assumes "kvmppc_rm_h_put_tce env l ioba tce s = Some (ret, s')" and "ret \<noteq> H_SUCCESS"
  shows "page_mem s' = page_mem s"
proof (cases "kvmppc_find_table env l")
  case None
  then show ?thesis using assms by (simp add: kvmppc_rm_h_put_tce_def)
next
  case (Some stt)
  let ?f = "\<lambda>tbl. kvmppc_rm_h_put_tce_iommu env tbl l ioba tce"
  show ?thesis
  proof (cases "kvmppc_ioba_validate stt ioba 1 = H_SUCCESS \<and>
                kvmppc_tce_validate env stt tce = H_SUCCESS")
    case False
    then show ?thesis using assms Some
      by (auto simp add: kvmppc_rm_h_put_tce_def split: if_splits)
  next
    case True
    show ?thesis
    proof (cases "for_each_group ?f (groups stt) None H_SUCCESS s")
      case (Inl a)
      then show ?thesis
        using assms Some True
          for_each_group_page_mem(1) [of ?f "groups stt" None H_SUCCESS s "fst a" "snd a",
            OF page_mem_put_tce_iommu]
        by (auto simp add: kvmppc_rm_h_put_tce_def)
    next
      case (Inr b)
      then show ?thesis
        using assms Some True for_each_group_Inr_ret [of ?f "groups stt" None H_SUCCESS s "fst b" "snd b"]
        by (cases b) (auto simp add: kvmppc_rm_h_put_tce_def split: option.splits)
    qed
  qed
qed

text \<open>
  C4. Let the table be found and the address and the entry pass validation. If the
  groups before \<open>kg\<close> have all succeeded, \<open>kg\<close> is not skipped as a repetition of
  the table before it, and the operation on \<open>kg\<close> fails with \<open>r\<close>, then
  \<^verbatim>\<open>kvmppc_rm_h_put_tce\<close> returns \<open>r\<close> in the state that operation left (nothing
  is rolled back) and the entry store is as it was before the call. So the entry is
  written only if the operation succeeded for every attached group.
\<close>

theorem kvmppc_rm_h_put_tce_group_failure:
  assumes find: "kvmppc_find_table env l = Some stt"
      and v1: "kvmppc_ioba_validate stt ioba 1 = H_SUCCESS"
      and v2: "kvmppc_tce_validate env stt tce = H_SUCCESS"
      and g: "groups stt = pre @ kg # post"
      and pre: "for_each_group (\<lambda>tbl. kvmppc_rm_h_put_tce_iommu env tbl l ioba tce)
                  pre None H_SUCCESS s = Inr (r0, s1)"
      and ns: "pre = [] \<or> last pre \<noteq> kg"
      and fail: "kvmppc_rm_h_put_tce_iommu env kg l ioba tce s1 = (r, s2)" "r \<noteq> H_SUCCESS"
  shows "kvmppc_rm_h_put_tce env l ioba tce s = Some (r, s2) \<and> page_mem s2 = page_mem s"
proof -
  let ?f = "\<lambda>tbl. kvmppc_rm_h_put_tce_iommu env tbl l ioba tce"
  have l: "(if pre = [] then None else Some (last pre)) \<noteq> Some kg"
    using ns by auto
  have loop: "for_each_group ?f (groups stt) None H_SUCCESS s = Inl (r, s2)"
    unfolding g by (rule for_each_group_snoc [OF pre l fail])
  have "page_mem s2 = page_mem s"
    by (rule for_each_group_page_mem(1) [OF page_mem_put_tce_iommu loop])
  then show ?thesis
    using loop by (simp add: kvmppc_rm_h_put_tce_def find v1 v2)
qed

lemma put_iommu_first:
  "kvmppc_rm_h_put_tce_iommu env_second_fails 1 1 0 0x20003 rm_state0 = (H_SUCCESS, rm_state1)"
proof -
  have "fst (kvmppc_rm_h_put_tce_iommu env_second_fails 1 1 0 0x20003 rm_state0) = H_SUCCESS"
    by code_simp
  then show ?thesis by (simp add: rm_state1_def prod_eq_iff)
qed

lemma put_iommu_second:
  "kvmppc_rm_h_put_tce_iommu env_second_fails 2 1 0 0x20003 s = (H_PARAMETER, s)"
proof -
  have "iommu_tce_direction env_second_fails 0x20003 = DMA_BIDIRECTIONAL" by code_simp
  then show ?thesis
    by (simp add: kvmppc_rm_h_put_tce_iommu_def Let_def) (simp add: env_second_fails_def)
qed

theorem kvmppc_rm_h_put_tce_group_failure_witness:
  "kvmppc_find_table env_second_fails 1 = Some stt_dev \<and>
   kvmppc_ioba_validate stt_dev 0 1 = H_SUCCESS \<and>
   kvmppc_tce_validate env_second_fails stt_dev 0x20003 = H_SUCCESS \<and>
   groups stt_dev = [1] @ 2 # [] \<and>
   for_each_group (\<lambda>tbl. kvmppc_rm_h_put_tce_iommu env_second_fails tbl 1 0 0x20003)
     [1] None H_SUCCESS rm_state0 = Inr (H_SUCCESS, rm_state1) \<and>
   kvmppc_rm_h_put_tce_iommu env_second_fails 2 1 0 0x20003 rm_state1 = (H_PARAMETER, rm_state1) \<and>
   kvmppc_rm_h_put_tce env_second_fails 1 0 0x20003 rm_state0 = Some (H_PARAMETER, rm_state1) \<and>
   page_mem rm_state1 = page_mem rm_state0"
proof -
  have find: "kvmppc_find_table env_second_fails 1 = Some stt_dev"
    by (simp add: kvmppc_find_table_def env_second_fails_def env0_def stt_dev_def)
  have v1: "kvmppc_ioba_validate stt_dev 0 1 = H_SUCCESS" by code_simp
  have v2: "kvmppc_tce_validate env_second_fails stt_dev 0x20003 = H_SUCCESS" by code_simp
  have g: "groups stt_dev = [1] @ 2 # []" by (simp add: stt_dev_def)
  have pre: "for_each_group (\<lambda>tbl. kvmppc_rm_h_put_tce_iommu env_second_fails tbl 1 0 0x20003)
               [1] None H_SUCCESS rm_state0 = Inr (H_SUCCESS, rm_state1)"
    using put_iommu_first by simp
  have ns: "[1 :: nat] = [] \<or> last [1] \<noteq> (2 :: nat)" by simp
  have ne: "H_PARAMETER \<noteq> H_SUCCESS" by simp
  show ?thesis
    using find v1 v2 g pre
      kvmppc_rm_h_put_tce_group_failure [OF find v1 v2 g pre ns put_iommu_second ne]
      put_iommu_second [of rm_state1]
    by simp
qed

section \<open>An operation on one hardware table leaves the others alone\<close>

lemma hw_tce_mapped_inc:
  "mm_iommu_mapped_inc env mem s = Some s' \<Longrightarrow> hw_tce s' = hw_tce s"
  by (auto simp add: mm_iommu_mapped_inc_def split: if_splits)

lemma hw_tce_mapped_dec: "hw_tce (mm_iommu_mapped_dec mem s) = hw_tce s"
  by (simp add: mm_iommu_mapped_dec_def)

lemma hw_tce_xchg:
  "t \<noteq> tbl \<Longrightarrow> hw_tce (snd (snd (snd (iommu_tce_xchg_rm env tbl entry hpa dir s)))) t = hw_tce s t"
  by (simp add: iommu_tce_xchg_rm_def)

lemma hw_tce_tce_iommu_mapped_dec:
  "hw_tce (snd (kvmppc_rm_tce_iommu_mapped_dec env tbl entry s)) = hw_tce s"
  by (simp add: kvmppc_rm_tce_iommu_mapped_dec_def Let_def hw_tce_mapped_dec
           split: option.splits)

lemma hw_tce_map:
  assumes "t \<noteq> tbl"
  shows "hw_tce (snd (kvmppc_rm_tce_iommu_map env tbl entry gpa dir s)) t = hw_tce s t"
proof -
  have x: "hw_tce s2 t = hw_tce s t"
    if "mm_iommu_mapped_inc env mem s = Some s1"
       "iommu_tce_xchg_rm env tbl entry hpa dir s1 = (failed, hpa', dir', s2)"
    for mem s1 hpa failed hpa' dir' s2
    using hw_tce_xchg [OF assms, of env entry hpa dir s1] hw_tce_mapped_inc [OF that(1)] that(2)
    by simp
  show ?thesis
    by (auto simp add: kvmppc_rm_tce_iommu_map_def Let_def hw_tce_mapped_dec
          hw_tce_tce_iommu_mapped_dec x
        split: sum.splits option.splits prod.splits)
qed

lemma hw_tce_indirect_iommu_map:
  assumes "t \<noteq> tbl"
  shows "hw_tce (snd (indirect_iommu_map env tbl entry tces js s)) t = hw_tce s t"
proof (induction js arbitrary: s)
  case Nil
  show ?case by simp
next
  case (Cons j js)
  show ?case
    using hw_tce_map [OF assms, of env "entry + of_nat j" "tce_gpa env (tces_mem env tces j)"
            "iommu_tce_direction env (tces_mem env tces j)" s]
    by (auto simp add: Let_def Cons.IH split: prod.splits)
qed

lemma hw_tce_put_tce_indirect_iommu:
  "t \<noteq> tbl \<Longrightarrow>
   hw_tce (snd (kvmppc_rm_h_put_tce_indirect_iommu env tbl ioba tces npages s)) t = hw_tce s t"
  by (simp add: kvmppc_rm_h_put_tce_indirect_iommu_def Let_def hw_tce_indirect_iommu_map)

lemma for_each_group_hw_tce:
  assumes f: "\<And>tbl s. t \<noteq> tbl \<Longrightarrow> hw_tce (snd (f tbl s)) t = hw_tce s t"
  shows "for_each_group f kgs tbltmp ret s = Inr (r, s') \<Longrightarrow> t \<notin> set kgs \<Longrightarrow>
         hw_tce s' t = hw_tce s t"
proof (induction kgs arbitrary: tbltmp ret s)
  case Nil
  then show ?case by simp
next
  case (Cons kg kgs)
  then show ?case
    using f [of kg s]
    by (auto split: if_splits prod.splits)
qed

section \<open>PutIndirect\<close>

text \<open>The first pass refuses the list exactly when the check refuses one of its entries.\<close>

lemma indirect_iommu_check_iff:
  "indirect_iommu_check env tbl ioba tces js \<longleftrightarrow>
     (\<exists>i \<in> set js. iommu_tce_put_param_check env tbl
                      (ioba + push_bit (it_page_shift env tbl) (of_nat i))
                      (tce_gpa env (tces_mem env tces i)))"
  by (induction js) (simp_all add: Let_def)

text \<open>A group whose first pass refuses an entry leaves the state as it found it.\<close>

lemma put_tce_indirect_iommu_entry_refused:
  assumes "i < unat npages"
      and "iommu_tce_put_param_check env tbl (ioba + push_bit (it_page_shift env tbl) (of_nat i))
             (tce_gpa env (tces_mem env tces i))"
  shows "kvmppc_rm_h_put_tce_indirect_iommu env tbl ioba tces npages s = (H_PARAMETER, s)"
proof -
  have "indirect_iommu_check env tbl ioba tces [0 ..< unat npages]"
    unfolding indirect_iommu_check_iff using assms by auto
  then show ?thesis by (simp add: kvmppc_rm_h_put_tce_indirect_iommu_def)
qed

text \<open>A group whose first pass accepts every entry goes on to its second pass.\<close>

lemma put_tce_indirect_iommu_all_accepted:
  assumes "\<And>i. i < unat npages \<Longrightarrow>
             \<not> iommu_tce_put_param_check env tbl (ioba + push_bit (it_page_shift env tbl) (of_nat i))
                 (tce_gpa env (tces_mem env tces i))"
  shows "kvmppc_rm_h_put_tce_indirect_iommu env tbl ioba tces npages s =
           indirect_iommu_map env tbl (drop_bit (it_page_shift env tbl) ioba) tces
             [0 ..< unat npages] s"
proof -
  have "\<not> indirect_iommu_check env tbl ioba tces [0 ..< unat npages]"
    unfolding indirect_iommu_check_iff using assms by auto
  then show ?thesis by (simp add: kvmppc_rm_h_put_tce_indirect_iommu_def)
qed

lemma put_tce_indirect_group_entry_refused:
  assumes find: "kvmppc_find_table env l = Some stt"
      and np: "npages \<le> 512"
      and al: "tce_list AND scast (NOT IOMMU_PAGE_MASK_4K) = 0"
      and v: "kvmppc_ioba_validate stt ioba npages = H_SUCCESS"
      and prereg: "kvmppc_preregistered env"
      and ua: "kvmppc_gpa_to_ua env tce_list False = Inr (ua, rmap)"
      and mem: "kvmppc_rm_iommu_lookup env ua IOMMU_PAGE_SIZE_4K = Some mem"
      and hpa: "mm_iommu_rm_ua_to_hpa env mem ua = Some tces"
      and g: "groups stt = pre @ kg # post"
      and pre: "for_each_group (\<lambda>tbl. kvmppc_rm_h_put_tce_indirect_iommu env tbl ioba tces npages)
                  pre None H_SUCCESS s = Inr (r0, s1)"
      and ns: "pre = [] \<or> last pre \<noteq> kg"
      and i: "i < unat npages"
      and ref: "iommu_tce_put_param_check env kg (ioba + push_bit (it_page_shift env kg) (of_nat i))
                  (tce_gpa env (tces_mem env tces i))"
  shows "kvmppc_rm_h_put_tce_indirect env l ioba tce_list npages s = Some (H_PARAMETER, s1)"
    and "page_mem s1 = page_mem s"
    and "t \<notin> set pre \<Longrightarrow> hw_tce s1 t = hw_tce s t"
proof -
  let ?f = "\<lambda>tbl. kvmppc_rm_h_put_tce_indirect_iommu env tbl ioba tces npages"
  have l: "(if pre = [] then None else Some (last pre)) \<noteq> Some kg"
    using ns by auto
  have ne: "H_PARAMETER \<noteq> H_SUCCESS" by simp
  have loop: "for_each_group ?f (groups stt) None H_SUCCESS s = Inl (H_PARAMETER, s1)"
    unfolding g
    by (rule for_each_group_snoc [OF pre l put_tce_indirect_iommu_entry_refused [OF i ref] ne])
  have n: "\<not> 512 < npages" using np by simp
  show "kvmppc_rm_h_put_tce_indirect env l ioba tce_list npages s = Some (H_PARAMETER, s1)"
    using loop by (simp add: kvmppc_rm_h_put_tce_indirect_def find n al v prereg ua mem hpa)
  show "page_mem s1 = page_mem s"
    by (rule for_each_group_page_mem(2) [OF page_mem_put_tce_indirect_iommu pre])
  show "hw_tce s1 t = hw_tce s t" if "t \<notin> set pre"
    by (rule for_each_group_hw_tce [OF hw_tce_put_tce_indirect_iommu pre that])
qed

text \<open>
  C2 (as amended). On the path with pre-registered memory, let the table be found, the
  checks of the dispatcher pass and the list address resolve to \<open>tces\<close>. If the
  groups before \<open>kg\<close> have all succeeded, \<open>kg\<close> is not skipped, and the pre-flight
  check of \<open>kg\<close> refuses the entry \<open>i\<close> of the list, whichever of the \<open>npages\<close>
  entries that is, then the call on \<open>kg\<close> changes nothing, the dispatcher returns
  \<open>H_PARAMETER\<close> in the state the groups before \<open>kg\<close> left, the entry store is as
  it was before the call, and so is the hardware table of every group that is not
  among those before \<open>kg\<close>.
\<close>

theorem kvmppc_rm_h_put_tce_indirect_group_validation:
  assumes find: "kvmppc_find_table env l = Some stt"
      and np: "npages \<le> 512"
      and al: "tce_list AND scast (NOT IOMMU_PAGE_MASK_4K) = 0"
      and v: "kvmppc_ioba_validate stt ioba npages = H_SUCCESS"
      and prereg: "kvmppc_preregistered env"
      and ua: "kvmppc_gpa_to_ua env tce_list False = Inr (ua, rmap)"
      and mem: "kvmppc_rm_iommu_lookup env ua IOMMU_PAGE_SIZE_4K = Some mem"
      and hpa: "mm_iommu_rm_ua_to_hpa env mem ua = Some tces"
      and g: "groups stt = pre @ kg # post"
      and pre: "for_each_group (\<lambda>tbl. kvmppc_rm_h_put_tce_indirect_iommu env tbl ioba tces npages)
                  pre None H_SUCCESS s = Inr (r0, s1)"
      and ns: "pre = [] \<or> last pre \<noteq> kg"
      and i: "i < unat npages"
      and ref: "iommu_tce_put_param_check env kg (ioba + push_bit (it_page_shift env kg) (of_nat i))
                  (tce_gpa env (tces_mem env tces i))"
  shows "kvmppc_rm_h_put_tce_indirect_iommu env kg ioba tces npages s1 = (H_PARAMETER, s1) \<and>
         kvmppc_rm_h_put_tce_indirect env l ioba tce_list npages s = Some (H_PARAMETER, s1) \<and>
         page_mem s1 = page_mem s \<and>
         (\<forall>t. t \<notin> set pre \<longrightarrow> hw_tce s1 t = hw_tce s t)"
  using put_tce_indirect_group_entry_refused [OF assms]
    put_tce_indirect_iommu_entry_refused [OF i ref]
  by blast

lemma entry_refused_facts:
  "kvmppc_find_table env_entry_refused 1 = Some stt_dev"
  "(2 :: u64) \<le> 512"
  "(0x30000 :: u64) AND scast (NOT IOMMU_PAGE_MASK_4K) = 0"
  "kvmppc_ioba_validate stt_dev 0 2 = H_SUCCESS"
  "kvmppc_preregistered env_entry_refused"
  "kvmppc_gpa_to_ua env_entry_refused 0x30000 False = Inr (0x10030000, 0)"
  "kvmppc_rm_iommu_lookup env_entry_refused 0x10030000 IOMMU_PAGE_SIZE_4K = Some 0"
  "mm_iommu_rm_ua_to_hpa env_entry_refused 0 0x10030000 = Some 0x10030000"
  "groups stt_dev = [1] @ 2 # []"
  by (simp add: kvmppc_find_table_def env_entry_refused_def env0_def stt_dev_def, simp, code_simp,
      code_simp, code_simp, code_simp, code_simp, code_simp, simp add: stt_dev_def)

lemma entry_refused_pre:
  "for_each_group (\<lambda>tbl. kvmppc_rm_h_put_tce_indirect_iommu env_entry_refused tbl 0 0x10030000 2)
     [1] None H_SUCCESS rm_state0 = Inr (H_SUCCESS, rm_state_two)"
proof -
  have "fst (kvmppc_rm_h_put_tce_indirect_iommu env_entry_refused 1 0 0x10030000 2 rm_state0)
          = H_SUCCESS"
    by code_simp
  then have "kvmppc_rm_h_put_tce_indirect_iommu env_entry_refused (Suc 0) 0 0x10030000 2 rm_state0
               = (H_SUCCESS, rm_state_two)"
    by (simp add: rm_state_two_def prod_eq_iff)
  then show ?thesis by simp
qed

lemma entry_refused_ns: "[1 :: nat] = [] \<or> last [1] \<noteq> (2 :: nat)"
  by simp

lemma entry_refused_second:
  "1 < unat (2 :: u64)"
  "iommu_tce_put_param_check env_entry_refused 2
     (0 + push_bit (it_page_shift env_entry_refused 2) (of_nat 1))
     (tce_gpa env_entry_refused (tces_mem env_entry_refused 0x10030000 1))"
  "\<not> iommu_tce_put_param_check env_entry_refused 2
     (0 + push_bit (it_page_shift env_entry_refused 2) (of_nat 0))
     (tce_gpa env_entry_refused (tces_mem env_entry_refused 0x10030000 0))"
  by (simp_all add: env_entry_refused_def env0_def)

theorem kvmppc_rm_h_put_tce_indirect_group_validation_witness:
  "kvmppc_find_table env_entry_refused 1 = Some stt_dev \<and>
   \<not> iommu_tce_put_param_check env_entry_refused 2
       (0 + push_bit (it_page_shift env_entry_refused 2) (of_nat 0))
       (tce_gpa env_entry_refused (tces_mem env_entry_refused 0x10030000 0)) \<and>
   iommu_tce_put_param_check env_entry_refused 2
     (0 + push_bit (it_page_shift env_entry_refused 2) (of_nat 1))
     (tce_gpa env_entry_refused (tces_mem env_entry_refused 0x10030000 1)) \<and>
   kvmppc_rm_h_put_tce_indirect_iommu env_entry_refused 2 0 0x10030000 2 rm_state_two
     = (H_PARAMETER, rm_state_two) \<and>
   kvmppc_rm_h_put_tce_indirect env_entry_refused 1 0 0x30000 2 rm_state0
     = Some (H_PARAMETER, rm_state_two) \<and>
   page_mem rm_state_two = page_mem rm_state0 \<and>
   hw_tce rm_state_two 2 = hw_tce rm_state0 2"
  using entry_refused_facts(1) entry_refused_second(2,3)
    kvmppc_rm_h_put_tce_indirect_group_validation
      [OF entry_refused_facts entry_refused_pre entry_refused_ns entry_refused_second(1,2)]
  by simp

lemma not_registered_facts:
  "kvmppc_find_table env_not_registered 1 = Some stt_dev"
  "\<not> kvmppc_preregistered env_not_registered"
  "kvmppc_gpa_to_ua env_not_registered 0x30000 True = Inr (0x10030000, 0x1018)"
  "kvmppc_rm_ua_to_hpa env_not_registered 0x10030000 = Inr 0x10030000"
  "kvmppc_tce_validate env_not_registered stt_dev 0x20003 = H_SUCCESS"
  "TCES_PER_PAGE env_not_registered = 8192"
  "tces_mem env_not_registered 0x10030000 i = 0x20003"
  by (simp add: kvmppc_find_table_def env_not_registered_def env_entry_refused_def env0_def
        stt_dev_def,
      code_simp, code_simp, code_simp, code_simp,
      simp add: TCES_PER_PAGE_def env_not_registered_def env_entry_refused_def env0_def,
      simp add: env_not_registered_def env_entry_refused_def env0_def)

lemma not_registered_store:
  "\<exists>s'. indirect_store env_not_registered stt_dev 0 0x10030000 [0 ..< unat (2 :: u64)] H_SUCCESS s
           = Some (H_SUCCESS, s') \<and>
        page_mem s' 0 1 = 0x20003 \<and> hw_tce s' = hw_tce s \<and> trace s' = trace s"
proof -
  have n2: "[0 ..< unat (2 :: u64)] = [0, Suc 0]" by (simp add: upt_rec)
  have t: "offset stt_dev = 0" "pages stt_dev = [0]" by (simp_all add: stt_dev_def)
  show ?thesis
    unfolding n2
    by (simp add: not_registered_facts kvmppc_tce_put_def Let_def t)
qed

lemma not_registered_call:
  "kvmppc_rm_h_put_tce_indirect env_not_registered 1 0 0x30000 2 rm_state0
     = Some (H_SUCCESS, rm_state_stored) \<and>
   page_mem rm_state_stored 0 1 = 0x20003 \<and> hw_tce rm_state_stored = hw_tce rm_state0"
proof -
  obtain s' where st: "indirect_store env_not_registered stt_dev 0 0x10030000 [0 ..< unat (2 :: u64)]
      H_SUCCESS (lock_rmap 0x1018 rm_state0) = Some (H_SUCCESS, s')"
    and pm: "page_mem s' 0 1 = 0x20003" and hw: "hw_tce s' = hw_tce (lock_rmap 0x1018 rm_state0)"
    using not_registered_store [of "lock_rmap 0x1018 rm_state0"] by blast
  have v: "kvmppc_ioba_validate stt_dev 0 2 = H_SUCCESS" by code_simp
  have al: "(0x30000 :: u64) AND scast (NOT IOMMU_PAGE_MASK_4K) = 0" by code_simp
  have d: "drop_bit (page_shift stt_dev) (0 :: u64) = 0" by simp
  have call: "kvmppc_rm_h_put_tce_indirect env_not_registered 1 0 0x30000 2 rm_state0
               = Some (H_SUCCESS, unlock_rmap 0x1018 s')"
    using st by (simp add: kvmppc_rm_h_put_tce_indirect_def not_registered_facts v al d Let_def)
  then have eq: "rm_state_stored = unlock_rmap 0x1018 s'"
    by (simp add: rm_state_stored_def)
  show ?thesis
    using call pm hw by (simp add: eq unlock_rmap_def lock_rmap_def)
qed

text \<open>
  C2 (the claim as stated fails, in two ways). The tables 1 and 2 are attached and the
  check of table 2 refuses the second entry of the list. With pre-registered memory the
  call returns \<open>H_PARAMETER\<close>, yet entry 0 of table 1, empty before the call, holds
  the new mapping: table 1 was validated and mapped before table 2 was validated.
  Without pre-registered memory no group is validated at all: the call returns
  \<open>H_SUCCESS\<close> and the refused entry is in the entry store, the hardware tables being
  as they were.
\<close>

theorem kvmppc_rm_h_put_tce_indirect_first_group_mapped:
  "iommu_tce_put_param_check env_entry_refused 2 0x1000 0x20000 \<and>
   kvmppc_rm_h_put_tce_indirect env_entry_refused 1 0 0x30000 2 rm_state0
     = Some (H_PARAMETER, rm_state_two) \<and>
   hw_tce rm_state0 1 0 = (0, DMA_NONE) \<and>
   hw_tce rm_state_two 1 0 = (0x10020000, DMA_BIDIRECTIONAL) \<and>
   iommu_tce_put_param_check env_not_registered 2 0x1000 0x20000 \<and>
   kvmppc_rm_h_put_tce_indirect env_not_registered 1 0 0x30000 2 rm_state0
     = Some (H_SUCCESS, rm_state_stored) \<and>
   page_mem rm_state0 0 1 = 0 \<and>
   page_mem rm_state_stored 0 1 = 0x20003 \<and>
   hw_tce rm_state_stored = hw_tce rm_state0"
proof -
  have a: "hw_tce rm_state0 1 0 = (0, DMA_NONE)" "page_mem rm_state0 0 1 = 0"
    by (simp_all add: rm_state0_def)
  have b: "hw_tce rm_state_two 1 0 = (0x10020000, DMA_BIDIRECTIONAL)" by code_simp
  have c: "iommu_tce_put_param_check env_entry_refused 2 0x1000 0x20000"
    "iommu_tce_put_param_check env_not_registered 2 0x1000 0x20000"
    by (simp_all add: env_not_registered_def env_entry_refused_def env0_def)
  show ?thesis
    using a b c not_registered_call
      put_tce_indirect_group_entry_refused(1)
        [OF entry_refused_facts entry_refused_pre entry_refused_ns entry_refused_second(1,2)]
    by simp
qed

section \<open>Unmap and map\<close>

lemma unmap_region_missing:
  assumes x: "\<not> xchg_fails env tbl entry"
      and d: "snd (hw_tce s tbl entry) \<noteq> DMA_NONE"
      and p: "IOMMU_TABLE_USERSPACE_ENTRY env tbl entry \<noteq> 0"
             "real_vmalloc_addr env (IOMMU_TABLE_USERSPACE_ENTRY env tbl entry) \<noteq> 0"
      and m: "kvmppc_rm_iommu_lookup env
                (ua_mem s (real_vmalloc_addr env (IOMMU_TABLE_USERSPACE_ENTRY env tbl entry)))
                (push_bit (it_page_shift env tbl) 1) = None"
  shows "kvmppc_rm_tce_iommu_unmap env tbl entry s =
           (H_HARDWARE,
            s\<lparr> hw_tce := (hw_tce s)(tbl := (hw_tce s tbl)(entry := (0, DMA_NONE))),
               trace := trace s @ [EvXchg tbl entry True] \<rparr>)"
  using assms
  by (simp add: kvmppc_rm_tce_iommu_unmap_def iommu_tce_xchg_rm_def
        kvmppc_rm_tce_iommu_mapped_dec_def Let_def)

text \<open>
  C3 (as amended). When the exchange succeeds on an entry whose direction was not
  \<open>DMA_NONE\<close>, the entry has a slot for its user address, and the region of the
  recorded address is not found, \<^verbatim>\<open>kvmppc_rm_tce_iommu_unmap\<close> returns
  \<open>H_HARDWARE\<close>: the hardware entry is cleared, the counters and the recorded address
  stay as they were.
\<close>

theorem kvmppc_rm_tce_iommu_unmap_region_missing:
  assumes "\<not> xchg_fails env tbl entry"
      and "snd (hw_tce s tbl entry) \<noteq> DMA_NONE"
      and "IOMMU_TABLE_USERSPACE_ENTRY env tbl entry \<noteq> 0"
      and "real_vmalloc_addr env (IOMMU_TABLE_USERSPACE_ENTRY env tbl entry) \<noteq> 0"
      and "kvmppc_rm_iommu_lookup env
             (ua_mem s (real_vmalloc_addr env (IOMMU_TABLE_USERSPACE_ENTRY env tbl entry)))
             (push_bit (it_page_shift env tbl) 1) = None"
  shows "fst (kvmppc_rm_tce_iommu_unmap env tbl entry s) = H_HARDWARE \<and>
         mapped (snd (kvmppc_rm_tce_iommu_unmap env tbl entry s)) = mapped s \<and>
         ua_mem (snd (kvmppc_rm_tce_iommu_unmap env tbl entry s)) = ua_mem s \<and>
         hw_tce (snd (kvmppc_rm_tce_iommu_unmap env tbl entry s)) tbl entry = (0, DMA_NONE)"
  unfolding unmap_region_missing [OF assms] by simp

lemma gone_facts:
  "\<not> xchg_fails env_gone 1 0"
  "snd (hw_tce rm_state_mapped 1 0) \<noteq> DMA_NONE"
  "IOMMU_TABLE_USERSPACE_ENTRY env_gone 1 0 \<noteq> 0"
  "real_vmalloc_addr env_gone (IOMMU_TABLE_USERSPACE_ENTRY env_gone 1 0) \<noteq> 0"
  "kvmppc_rm_iommu_lookup env_gone
     (ua_mem rm_state_mapped (real_vmalloc_addr env_gone (IOMMU_TABLE_USERSPACE_ENTRY env_gone 1 0)))
     (push_bit (it_page_shift env_gone 1) 1) = None"
  by (simp_all add: env_gone_def env0_def rm_state_mapped_def kvmppc_rm_iommu_lookup_def)

theorem kvmppc_rm_tce_iommu_unmap_region_missing_witness:
  "snd (hw_tce rm_state_mapped 1 0) = DMA_BIDIRECTIONAL \<and>
   fst (kvmppc_rm_tce_iommu_unmap env_gone 1 0 rm_state_mapped) = H_HARDWARE \<and>
   mapped (snd (kvmppc_rm_tce_iommu_unmap env_gone 1 0 rm_state_mapped)) = mapped rm_state_mapped \<and>
   ua_mem (snd (kvmppc_rm_tce_iommu_unmap env_gone 1 0 rm_state_mapped)) = ua_mem rm_state_mapped \<and>
   hw_tce (snd (kvmppc_rm_tce_iommu_unmap env_gone 1 0 rm_state_mapped)) 1 0 = (0, DMA_NONE)"
  using kvmppc_rm_tce_iommu_unmap_region_missing [OF gone_facts]
  by (simp add: rm_state_mapped_def)

text \<open>
  C3 (the claim as stated fails). Entry 0 of table 1 is mapped in both directions and the
  region of its recorded address is no longer registered: the unmap returns
  \<open>H_HARDWARE\<close>, not success.
\<close>

theorem kvmppc_rm_tce_iommu_unmap_missing_region_fails:
  "snd (hw_tce rm_state_mapped 1 0) = DMA_BIDIRECTIONAL \<and>
   kvmppc_rm_iommu_lookup env_gone (ua_mem rm_state_mapped 0x9000) (push_bit 12 1) = None \<and>
   fst (kvmppc_rm_tce_iommu_unmap env_gone 1 0 rm_state_mapped) = H_HARDWARE"
proof -
  have "fst (kvmppc_rm_tce_iommu_unmap env_gone 1 0 rm_state_mapped) = H_HARDWARE"
    unfolding unmap_region_missing [OF gone_facts] by simp
  then show ?thesis
    by (simp add: rm_state_mapped_def kvmppc_rm_iommu_lookup_def env_gone_def)
qed

lemma trace_tce_iommu_mapped_dec:
  "trace (snd (kvmppc_rm_tce_iommu_mapped_dec env tbl entry s)) = trace s \<or>
   (\<exists>old. old_region env tbl entry s = Some old \<and>
      trace (snd (kvmppc_rm_tce_iommu_mapped_dec env tbl entry s)) = trace s @ [EvMappedDec old])"
  by (simp add: kvmppc_rm_tce_iommu_mapped_dec_def Let_def mm_iommu_mapped_dec_def old_region_def
           split: option.splits)

text \<open>
  C5. What \<^verbatim>\<open>kvmppc_rm_tce_iommu_map\<close> adds to the trace is one of: nothing (it
  failed before touching anything); the increment of the new region, a failed exchange,
  the decrement of the new region again; the increment of the new region and a
  successful exchange; or these two followed by the decrement of the old region, and
  then the old direction was not \<open>DMA_NONE\<close>. So the new region is counted before the
  exchange is attempted, and the old one is released only after the exchange has
  succeeded.
\<close>

theorem kvmppc_rm_tce_iommu_map_order:
  "\<exists>evs. trace (snd (kvmppc_rm_tce_iommu_map env tbl entry gpa dir s)) = trace s @ evs \<and>
     (evs = [] \<and> fst (kvmppc_rm_tce_iommu_map env tbl entry gpa dir s) = H_HARDWARE \<or>
      (\<exists>mem. new_region env tbl gpa = Some mem \<and>
         (evs = [EvMappedInc mem, EvXchg tbl entry False, EvMappedDec mem] \<and>
            fst (kvmppc_rm_tce_iommu_map env tbl entry gpa dir s) = H_TOO_HARD \<or>
          evs = [EvMappedInc mem, EvXchg tbl entry True] \<and>
            fst (kvmppc_rm_tce_iommu_map env tbl entry gpa dir s) = H_SUCCESS \<or>
          (\<exists>old. old_region env tbl entry s = Some old \<and>
             snd (hw_tce s tbl entry) \<noteq> DMA_NONE \<and>
             evs = [EvMappedInc mem, EvXchg tbl entry True, EvMappedDec old] \<and>
             fst (kvmppc_rm_tce_iommu_map env tbl entry gpa dir s) = H_SUCCESS))))"
proof (cases "kvmppc_gpa_to_ua env gpa False")
  case (Inl e)
  then show ?thesis by (simp add: kvmppc_rm_tce_iommu_map_def)
next
  case (Inr p)
  obtain ua rmap where p: "p = (ua, rmap)" by (cases p)
  show ?thesis
  proof (cases "kvmppc_rm_iommu_lookup env ua (push_bit (it_page_shift env tbl) 1)")
    case None
    then show ?thesis using Inr p by (simp add: kvmppc_rm_tce_iommu_map_def)
  next
    case (Some mem)
    note lk = Some
    have nr: "new_region env tbl gpa = Some mem"
      using Inr p lk by (simp add: new_region_def)
    show ?thesis
    proof (cases "mm_iommu_rm_ua_to_hpa env mem ua")
      case None
      then show ?thesis using Inr p lk by (simp add: kvmppc_rm_tce_iommu_map_def)
    next
      case (Some hpa)
      note hp = Some
      let ?pua = "real_vmalloc_addr env (IOMMU_TABLE_USERSPACE_ENTRY env tbl entry)"
      show ?thesis
      proof (cases "?pua = 0 \<or> mapped_inc_fails env mem (mapped s mem)")
        case True
        then show ?thesis using Inr p lk hp
          by (auto simp add: kvmppc_rm_tce_iommu_map_def Let_def mm_iommu_mapped_inc_def)
      next
        case False
        let ?s1 = "s\<lparr> mapped := (mapped s)(mem := mapped s mem + 1),
                       trace := trace s @ [EvMappedInc mem] \<rparr>"
        have inc: "mm_iommu_mapped_inc env mem s = Some ?s1"
          using False by (simp add: mm_iommu_mapped_inc_def)
        show ?thesis
        proof (cases "xchg_fails env tbl entry")
          case True
          then show ?thesis using Inr p lk hp False inc nr
            by (simp add: kvmppc_rm_tce_iommu_map_def Let_def iommu_tce_xchg_rm_def
                  mm_iommu_mapped_dec_def)
        next
          case nf: False
          let ?s2 = "?s1\<lparr> hw_tce := (hw_tce ?s1)(tbl := (hw_tce ?s1 tbl)(entry := (hpa, dir))),
                          trace := trace ?s1 @ [EvXchg tbl entry True] \<rparr>"
          have x: "iommu_tce_xchg_rm env tbl entry hpa dir ?s1 =
                     (False, fst (hw_tce s tbl entry), snd (hw_tce s tbl entry), ?s2)"
            using nf by (simp add: iommu_tce_xchg_rm_def)
          show ?thesis
          proof (cases "snd (hw_tce s tbl entry) = DMA_NONE")
            case True
            then show ?thesis using Inr p lk hp False inc x nr
              by (simp add: kvmppc_rm_tce_iommu_map_def Let_def)
          next
            case old: False
            have r: "kvmppc_rm_tce_iommu_map env tbl entry gpa dir s =
                (H_SUCCESS, (snd (kvmppc_rm_tce_iommu_mapped_dec env tbl entry ?s2))
                   \<lparr> ua_mem := (ua_mem (snd (kvmppc_rm_tce_iommu_mapped_dec env tbl entry ?s2)))
                        (?pua := ua) \<rparr>)"
              using Inr p lk hp False inc x old
              by (simp add: kvmppc_rm_tce_iommu_map_def Let_def)
            have o: "old_region env tbl entry ?s2 = old_region env tbl entry s"
              by (simp add: old_region_def)
            show ?thesis
              using trace_tce_iommu_mapped_dec [of env tbl entry ?s2] old nr
              unfolding r o by auto
          qed
        qed
      qed
    qed
  qed
qed

theorem kvmppc_rm_tce_iommu_map_order_witness:
  "snd (hw_tce rm_state_mapped 1 0) = DMA_BIDIRECTIONAL \<and>
   new_region env0 1 0x20000 = Some 0 \<and> old_region env0 1 0 rm_state_mapped = Some 0 \<and>
   (\<exists>evs. trace (snd (kvmppc_rm_tce_iommu_map env0 1 0 0x20000 DMA_TO_DEVICE rm_state_mapped))
            = trace rm_state_mapped @ evs \<and>
          evs = [EvMappedInc 0, EvXchg 1 0 True, EvMappedDec 0])"
proof -
  have t: "trace (snd (kvmppc_rm_tce_iommu_map env0 1 0 0x20000 DMA_TO_DEVICE rm_state_mapped))
             = [EvMappedInc 0, EvXchg 1 0 True, EvMappedDec 0]"
    by code_simp
  have e: "trace rm_state_mapped = []" by (simp add: rm_state_mapped_def)
  have n: "new_region env0 1 0x20000 = Some 0" by code_simp
  have ol: "old_region env0 1 0 rm_state_mapped = Some 0" by code_simp
  have d: "snd (hw_tce rm_state_mapped 1 0) = DMA_BIDIRECTIONAL" by (simp add: rm_state_mapped_def)
  show ?thesis
    using kvmppc_rm_tce_iommu_map_order [of env0 1 0 "0x20000" DMA_TO_DEVICE rm_state_mapped]
      t e n ol d
    by simp
qed

section \<open>PutIndirect: the checks before the list is touched\<close>

lemma low_bits_4K: "(scast (NOT IOMMU_PAGE_MASK_4K) :: u64) = 0xfff"
  by code_simp

text \<open>
  C6. When the table is found and \<open>npages\<close> is above 512,
  \<^verbatim>\<open>kvmppc_rm_h_put_tce_indirect\<close> returns \<open>H_PARAMETER\<close> and changes nothing,
  whatever the memory holding the list contains.
\<close>

theorem kvmppc_rm_h_put_tce_indirect_cap:
  assumes "kvmppc_find_table env l = Some stt" and "512 < npages"
  shows "kvmppc_rm_h_put_tce_indirect (env\<lparr> tces_mem := m \<rparr>) l ioba tce_list npages s
           = Some (H_PARAMETER, s)"
proof -
  have "kvmppc_find_table (env\<lparr> tces_mem := m \<rparr>) l = Some stt"
    using assms(1) by (simp add: kvmppc_find_table_def)
  then show ?thesis
    using assms(2) by (simp add: kvmppc_rm_h_put_tce_indirect_def)
qed

theorem kvmppc_rm_h_put_tce_indirect_cap_witness:
  "kvmppc_find_table env0 1 = Some stt_dev \<and> (512 :: u64) < 513 \<and>
   kvmppc_rm_h_put_tce_indirect (env0\<lparr> tces_mem := (\<lambda>tces i. 0) \<rparr>) 1 0 0x30000 513 rm_state0
     = Some (H_PARAMETER, rm_state0)"
proof -
  have h: "(512 :: u64) < 513" by simp
  show ?thesis
    using find0 h kvmppc_rm_h_put_tce_indirect_cap
      [OF find0 h, where m = "\<lambda>tces i. 0" and ioba = 0 and tce_list = "0x30000" and s = rm_state0]
    by simp
qed

text \<open>
  C10 (as amended). When the table is found and the list address has a bit set among its
  low twelve, \<^verbatim>\<open>kvmppc_rm_h_put_tce_indirect\<close> returns \<open>H_PARAMETER\<close> and changes
  nothing, whatever the memory slots and the memory holding the list are: the list is
  neither resolved nor read.
\<close>

theorem kvmppc_rm_h_put_tce_indirect_list_alignment:
  assumes "kvmppc_find_table env l = Some stt" and "tce_list AND 0xfff \<noteq> 0"
  shows "kvmppc_rm_h_put_tce_indirect (env\<lparr> search_memslots := ms, tces_mem := m \<rparr>)
           l ioba tce_list npages s
           = Some (H_PARAMETER, s)"
proof -
  have "kvmppc_find_table (env\<lparr> search_memslots := ms, tces_mem := m \<rparr>) l = Some stt"
    using assms(1) by (simp add: kvmppc_find_table_def)
  then show ?thesis
    using assms(2) by (simp add: kvmppc_rm_h_put_tce_indirect_def low_bits_4K Let_def)
qed

theorem kvmppc_rm_h_put_tce_indirect_list_alignment_witness:
  "kvmppc_find_table env0 1 = Some stt_dev \<and> (0x30008 :: u64) AND 0xfff = 8 \<and>
   kvmppc_rm_h_put_tce_indirect
     (env0\<lparr> search_memslots := (\<lambda>gfn. None), tces_mem := (\<lambda>tces i. 0) \<rparr>) 1 0 0x30008 1 rm_state0
     = Some (H_PARAMETER, rm_state0)"
proof -
  have v: "(0x30008 :: u64) AND 0xfff = 8" by code_simp
  then have h: "(0x30008 :: u64) AND 0xfff \<noteq> 0" by simp
  show ?thesis
    using find0 v
      kvmppc_rm_h_put_tce_indirect_list_alignment
        [OF find0 h, where ms = "\<lambda>gfn. None" and m = "\<lambda>tces i. 0" and ioba = 0
           and npages = 1 and s = rm_state0]
    by simp
qed

text \<open>
  C10 (the claim as stated fails). Without a table for the bus, a call with a misaligned
  list address returns \<open>H_TOO_HARD\<close>, not \<open>H_PARAMETER\<close>: the table is looked up
  first.
\<close>

theorem kvmppc_rm_h_put_tce_indirect_unaligned_no_table:
  "(0x30008 :: u64) AND 0xfff = 8 \<and>
   kvmppc_rm_h_put_tce_indirect env_no_table 1 0 0x30008 1 rm_state0 = Some (H_TOO_HARD, rm_state0)"
proof -
  have v: "(0x30008 :: u64) AND 0xfff = 8" by code_simp
  have "kvmppc_find_table env_no_table 1 = None"
    by (simp add: kvmppc_find_table_def env_no_table_def)
  then show ?thesis
    using v by (simp add: kvmppc_rm_h_put_tce_indirect_def)
qed

section \<open>Stuff\<close>

text \<open>Storing 0 where 0 is stored changes nothing, and only then.\<close>

lemma kvmppc_tce_put_zero_noop:
  "kvmppc_tce_put env stt idx 0 s = Some s \<longleftrightarrow>
     unat (idx - offset stt) div TCES_PER_PAGE env < length (pages stt) \<and>
     page_mem s (pages stt ! (unat (idx - offset stt) div TCES_PER_PAGE env))
       (unat (idx - offset stt) mod TCES_PER_PAGE env) = 0"
  (is "?l \<longleftrightarrow> ?b \<and> ?z")
proof
  assume l: ?l
  then have b: ?b by (auto simp add: kvmppc_tce_put_def Let_def split: if_splits)
  let ?p = "pages stt ! (unat (idx - offset stt) div TCES_PER_PAGE env)"
  let ?j = "unat (idx - offset stt) mod TCES_PER_PAGE env"
  have "s\<lparr> page_mem := (page_mem s)(?p := (page_mem s ?p)(?j := 0)) \<rparr> = s"
    using l unfolding kvmppc_tce_put_Some [OF b] by simp
  then have "page_mem (s\<lparr> page_mem := (page_mem s)(?p := (page_mem s ?p)(?j := 0)) \<rparr>) ?p ?j
               = page_mem s ?p ?j"
    by simp
  then have ?z by simp
  then show "?b \<and> ?z" using b by simp
next
  assume "?b \<and> ?z"
  then show ?l by (simp add: kvmppc_tce_put_def Let_def fun_upd_idem)
qed

lemma kvmppc_tce_put_zero_keeps:
  "kvmppc_tce_put env stt idx 0 s = Some s' \<Longrightarrow> page_mem s p j = 0 \<Longrightarrow> page_mem s' p j = 0"
  by (auto simp add: kvmppc_tce_put_def Let_def split: if_splits)

lemma kvmppc_tce_put_zero_written:
  "kvmppc_tce_put env stt idx 0 s = Some s' \<Longrightarrow> kvmppc_tce_put env stt idx 0 s' = Some s'"
  by (auto simp add: kvmppc_tce_put_def Let_def split: if_splits)

lemma kvmppc_tce_put_noop_page_mem:
  "kvmppc_tce_put env stt idx 0 s = Some s \<Longrightarrow> page_mem s1 = page_mem s \<Longrightarrow>
   kvmppc_tce_put env stt idx 0 s1 = Some s1"
  by (simp add: kvmppc_tce_put_zero_noop)

lemma stuff_store_zero_keeps:
  "stuff_store env stt ioba 0 k s = Some s' \<Longrightarrow> page_mem s p j = 0 \<Longrightarrow> page_mem s' p j = 0"
proof (induction k arbitrary: ioba s)
  case 0
  then show ?case by simp
next
  case (Suc k)
  then show ?case
    by (auto split: option.splits dest: kvmppc_tce_put_zero_keeps)
qed

lemma stuff_store_zero_written:
  "stuff_store env stt ioba 0 k s = Some s' \<Longrightarrow> i < k \<Longrightarrow>
   kvmppc_tce_put env stt
     (drop_bit (page_shift stt) (ioba + of_nat i * scast (push_bit (page_shift stt) (1 :: 32 word))))
     0 s' = Some s'"
proof (induction k arbitrary: ioba s i)
  case 0
  then show ?case by simp
next
  case (Suc k)
  obtain s1 where p: "kvmppc_tce_put env stt (drop_bit (page_shift stt) ioba) 0 s = Some s1"
    and r: "stuff_store env stt (ioba + scast (push_bit (page_shift stt) (1 :: 32 word))) 0 k s1
              = Some s'"
    using Suc.prems(1) by (auto split: option.splits)
  show ?case
  proof (cases i)
    case 0
    have "kvmppc_tce_put env stt (drop_bit (page_shift stt) ioba) 0 s1 = Some s1"
      by (rule kvmppc_tce_put_zero_written [OF p])
    then have "kvmppc_tce_put env stt (drop_bit (page_shift stt) ioba) 0 s' = Some s'"
      using stuff_store_zero_keeps [OF r] by (simp add: kvmppc_tce_put_zero_noop)
    then show ?thesis using 0 by simp
  next
    case (Suc i')
    then have "i' < k" using Suc.prems(2) by simp
    from Suc.IH [OF r this] show ?thesis
      using Suc by (simp add: algebra_simps)
  qed
qed

lemma stuff_store_zero_noop:
  "(\<And>i. i < k \<Longrightarrow>
      kvmppc_tce_put env stt
        (drop_bit (page_shift stt) (ioba + of_nat i * scast (push_bit (page_shift stt) (1 :: 32 word))))
        0 s = Some s) \<Longrightarrow>
   stuff_store env stt ioba 0 k s = Some s"
proof (induction k arbitrary: ioba)
  case 0
  show ?case by simp
next
  case (Suc k)
  have p: "kvmppc_tce_put env stt (drop_bit (page_shift stt) ioba) 0 s = Some s"
    using Suc.prems [of 0] by simp
  have "stuff_store env stt (ioba + scast (push_bit (page_shift stt) (1 :: 32 word))) 0 k s = Some s"
  proof (rule Suc.IH)
    fix i assume "i < k"
    then show "kvmppc_tce_put env stt
        (drop_bit (page_shift stt)
           (ioba + scast (push_bit (page_shift stt) (1 :: 32 word)) +
            of_nat i * scast (push_bit (page_shift stt) (1 :: 32 word))))
        0 s = Some s"
      using Suc.prems [of "Suc i"] by (simp add: algebra_simps)
  qed
  then show ?case using p by simp
qed

text \<open>Whether the loop over the groups of Stuff completes does not depend on the state.\<close>

lemma for_each_group_stuff_again:
  "for_each_group (\<lambda>tbl. kvmppc_rm_h_stuff_tce_iommu env tbl l ioba v npages) kgs tbltmp ret s
     = Inr (r, s1) \<Longrightarrow>
   \<exists>s1'. for_each_group (\<lambda>tbl. kvmppc_rm_h_stuff_tce_iommu env tbl l ioba v npages) kgs tbltmp ret s'
     = Inr (r, s1')"
proof (induction kgs arbitrary: tbltmp ret s s')
  case Nil
  then show ?case by simp
next
  case (Cons kg kgs)
  show ?case
  proof (cases "Some kg = tbltmp")
    case True
    then show ?thesis using Cons.prems Cons.IH by simp
  next
    case False
    have c: "\<not> iommu_tce_clear_param_check env kg ioba v npages"
      using Cons.prems False
      by (auto simp add: kvmppc_rm_h_stuff_tce_iommu_def Let_def split: if_splits)
    then show ?thesis
      using Cons.prems False Cons.IH
      by (simp add: kvmppc_rm_h_stuff_tce_iommu_def Let_def)
  qed
qed

lemma unat_idx_plus:
  assumes "unat (idx :: u64) + i < 2 ^ 64"
  shows "unat (idx + of_nat i) = unat idx + i"
proof -
  have i: "i < 2 ^ 64" using assms by simp
  have "unat (of_nat i :: u64) = i"
    using i by (simp add: unsigned_of_nat take_bit_nat_eq_self)
  then show ?thesis
    using assms by (simp add: unat_word_ariths)
qed

lemma push_bit_steps:
  "sh < 31 \<Longrightarrow>
   push_bit sh (idx :: u64) + of_nat i * scast (push_bit sh (1 :: 32 word)) = push_bit sh (idx + of_nat i)"
  by (simp only: scast_step) (simp add: push_bit_eq_mult algebra_simps)

lemma for_each_group_Inl_ret:
  "for_each_group f kgs tbltmp ret s = Inl (r, s') \<Longrightarrow> r \<noteq> H_SUCCESS"
  by (induction kgs arbitrary: tbltmp ret s) (auto split: if_splits prod.splits)

lemma tce_validate_zero: "kvmppc_tce_validate env stt 0 = H_SUCCESS"
  by (simp add: kvmppc_tce_validate_def)

lemma stuff_success_parts:
  assumes find: "kvmppc_find_table env l = Some stt"
      and ok: "kvmppc_rm_h_stuff_tce env l ioba 0 n s = Some (H_SUCCESS, s')"
  shows "kvmppc_ioba_validate stt ioba n = H_SUCCESS"
    and "\<exists>r s1. for_each_group (\<lambda>tbl. kvmppc_rm_h_stuff_tce_iommu env tbl l ioba 0 n)
                  (groups stt) None H_SUCCESS s = Inr (r, s1) \<and>
                stuff_store env stt ioba 0 (unat n) s1 = Some s'"
proof -
  show v: "kvmppc_ioba_validate stt ioba n = H_SUCCESS"
    using ok by (auto simp add: kvmppc_rm_h_stuff_tce_def find split: if_splits)
  show "\<exists>r s1. for_each_group (\<lambda>tbl. kvmppc_rm_h_stuff_tce_iommu env tbl l ioba 0 n)
                  (groups stt) None H_SUCCESS s = Inr (r, s1) \<and>
                stuff_store env stt ioba 0 (unat n) s1 = Some s'"
  proof (cases "for_each_group (\<lambda>tbl. kvmppc_rm_h_stuff_tce_iommu env tbl l ioba 0 n)
                  (groups stt) None H_SUCCESS s")
    case (Inl a)
    obtain r s1 where a: "a = (r, s1)" by (cases a)
    have "r \<noteq> H_SUCCESS"
      using Inl a for_each_group_Inl_ret by fastforce
    then show ?thesis
      using ok Inl a by (simp add: kvmppc_rm_h_stuff_tce_def find v tce_validate_zero)
  next
    case (Inr b)
    obtain r s1 where b: "b = (r, s1)" by (cases b)
    show ?thesis
      using ok Inr b
      by (auto simp add: kvmppc_rm_h_stuff_tce_def find v tce_validate_zero split: option.splits)
  qed
qed

text \<open>
  C9. In a table whose window fits the 64-bit I/O address space, let the \<open>n\<close> indices
  from \<open>idx\<close> on lie in the window and let Stuff with the value 0 succeed on them.
  Then \<^verbatim>\<open>kvmppc_h_get_tce\<close> on each of these indices returns \<open>H_SUCCESS\<close> with 0
  in \<^verbatim>\<open>gpr[4]\<close>, and the same Stuff once more succeeds and leaves the entry store
  as the first one left it.
\<close>

theorem kvmppc_rm_h_stuff_tce_clear_idempotent:
  assumes find: "kvmppc_find_table env l = Some stt"
      and sh: "0 < page_shift stt" "page_shift stt < 31"
      and win: "unat (offset stt) + unat (size_stt stt) \<le> 2 ^ (64 - page_shift stt)"
      and range: "offset stt \<le> idx" "unat idx + unat n \<le> unat (offset stt) + unat (size_stt stt)"
      and ok: "kvmppc_rm_h_stuff_tce env l (push_bit (page_shift stt) idx) 0 n s = Some (H_SUCCESS, s')"
  shows "(\<forall>i < unat n.
            kvmppc_h_get_tce env l (push_bit (page_shift stt) (idx + of_nat i)) s'
              = Some (H_SUCCESS, s'\<lparr> gpr4 := 0 \<rparr>)) \<and>
         (\<exists>s''. kvmppc_rm_h_stuff_tce env l (push_bit (page_shift stt) idx) 0 n s'
                   = Some (H_SUCCESS, s'') \<and>
                page_mem s'' = page_mem s')"
proof -
  let ?sh = "page_shift stt"
  let ?ioba = "push_bit ?sh idx"
  let ?f = "\<lambda>tbl. kvmppc_rm_h_stuff_tce_iommu env tbl l ?ioba 0 n"
  note parts = stuff_success_parts [OF find ok]
  obtain r s1 where loop: "for_each_group ?f (groups stt) None H_SUCCESS s = Inr (r, s1)"
    and store: "stuff_store env stt ?ioba 0 (unat n) s1 = Some s'"
    using parts(2) by blast
  have b63: "(2::nat) ^ (64 - ?sh) \<le> 2 ^ 63" by (rule pow_le_63 [OF sh(1)])
  have touched: "kvmppc_tce_put env stt (idx + of_nat i) 0 s' = Some s'"
    and valid: "kvmppc_ioba_validate stt (push_bit ?sh (idx + of_nat i)) 1 = H_SUCCESS"
    and dropped: "drop_bit ?sh (push_bit ?sh (idx + of_nat i)) = idx + of_nat i"
    if i: "i < unat n" for i
  proof -
    have u: "unat (idx + of_nat i) = unat idx + i"
      using i range(2) win b63 by (intro unat_idx_plus) simp
    have lo: "offset stt \<le> idx + of_nat i"
      using range(1) u by (simp add: word_le_nat_alt)
    have hi: "unat (idx + of_nat i) < unat (offset stt) + unat (size_stt stt)"
      using u i range(2) by simp
    note w = window_index [OF sh win lo hi]
    show "drop_bit ?sh (push_bit ?sh (idx + of_nat i)) = idx + of_nat i" by (rule w(1))
    show "kvmppc_ioba_validate stt (push_bit ?sh (idx + of_nat i)) 1 = H_SUCCESS" by (rule w(2))
    show "kvmppc_tce_put env stt (idx + of_nat i) 0 s' = Some s'"
      using stuff_store_zero_written [OF store i]
      by (simp only: push_bit_steps [OF sh(2)] w(1))
  qed
  have get: "kvmppc_h_get_tce env l (push_bit ?sh (idx + of_nat i)) s'
               = Some (H_SUCCESS, s'\<lparr> gpr4 := 0 \<rparr>)" if i: "i < unat n" for i
    using touched [OF i]
    by (simp add: kvmppc_h_get_tce_def find valid [OF i] dropped [OF i] Let_def
          kvmppc_tce_put_zero_noop)
  obtain s1' where loop': "for_each_group ?f (groups stt) None H_SUCCESS s' = Inr (r, s1')"
    using for_each_group_stuff_again [OF loop] by blast
  have pm: "page_mem s1' = page_mem s'"
    by (rule for_each_group_page_mem(2) [OF page_mem_stuff_tce_iommu loop'])
  have "stuff_store env stt ?ioba 0 (unat n) s1' = Some s1'"
  proof (rule stuff_store_zero_noop)
    fix i assume i: "i < unat n"
    show "kvmppc_tce_put env stt
            (drop_bit ?sh (?ioba + of_nat i * scast (push_bit ?sh (1 :: 32 word)))) 0 s1' = Some s1'"
      using kvmppc_tce_put_noop_page_mem [OF touched [OF i] pm]
      by (simp only: push_bit_steps [OF sh(2)] dropped [OF i])
  qed
  then have "kvmppc_rm_h_stuff_tce env l ?ioba 0 n s' = Some (H_SUCCESS, s1')"
    using loop' by (simp add: kvmppc_rm_h_stuff_tce_def find parts(1) tce_validate_zero)
  then show ?thesis using get pm by blast
qed

lemma stuff_tce_iommu_ok:
  "\<not> iommu_tce_clear_param_check env tbl ioba v n \<Longrightarrow>
   fst (kvmppc_rm_h_stuff_tce_iommu env tbl l ioba v n s) = H_SUCCESS"
  by (simp add: kvmppc_rm_h_stuff_tce_iommu_def Let_def)

lemma stuffed:
  "\<exists>s'. kvmppc_rm_h_stuff_tce env0 1 (push_bit (page_shift stt_dev) 1) 0 2 rm_state_full
     = Some (H_SUCCESS, s')"
proof -
  have a: "push_bit (page_shift stt_dev) (1 :: u64) = 0x1000" by (simp add: stt_dev_def)
  have v: "kvmppc_ioba_validate stt_dev 0x1000 2 = H_SUCCESS"
    by (simp add: kvmppc_ioba_validate_def stt_dev_def ioba_mask_def drop_bit_eq_div word_le_nat_alt)
  have c: "\<not> iommu_tce_clear_param_check env0 tbl 0x1000 0 2" for tbl
    by (simp add: env0_def)
  obtain s1 where loop: "for_each_group (\<lambda>tbl. kvmppc_rm_h_stuff_tce_iommu env0 tbl 1 0x1000 0 2)
      (groups stt_dev) None H_SUCCESS rm_state_full = Inr (H_SUCCESS, s1)"
    using stuff_tce_iommu_ok [OF c]
    by (simp add: stt_dev_def prod_eq_iff split: prod.splits) 
  have n2: "unat (2 :: u64) = Suc (Suc 0)" by simp
  have st: "\<exists>s'. stuff_store env0 stt_dev 0x1000 0 (unat (2 :: u64)) s1 = Some s'"
    unfolding n2
    by (simp add: kvmppc_tce_put_def T0 Let_def stt_dev_def drop_bit_eq_div scast_step)
  show ?thesis
    unfolding a using loop st
    by (auto simp add: kvmppc_rm_h_stuff_tce_def find0 v tce_validate_zero)
qed

theorem kvmppc_rm_h_stuff_tce_clear_idempotent_witness:
  "kvmppc_find_table env0 1 = Some stt_dev \<and> 0 < page_shift stt_dev \<and> page_shift stt_dev < 31 \<and>
   unat (offset stt_dev) + unat (size_stt stt_dev) \<le> 2 ^ (64 - page_shift stt_dev) \<and>
   offset stt_dev \<le> 1 \<and>
   unat (1 :: u64) + unat (2 :: u64) \<le> unat (offset stt_dev) + unat (size_stt stt_dev) \<and>
   page_mem rm_state_full 0 2 = 0x20003 \<and>
   (\<exists>s'. kvmppc_rm_h_stuff_tce env0 1 (push_bit (page_shift stt_dev) 1) 0 2 rm_state_full
            = Some (H_SUCCESS, s') \<and>
         kvmppc_h_get_tce env0 1 (push_bit (page_shift stt_dev) (1 + of_nat 1)) s'
            = Some (H_SUCCESS, s'\<lparr> gpr4 := 0 \<rparr>) \<and>
         (\<exists>s''. kvmppc_rm_h_stuff_tce env0 1 (push_bit (page_shift stt_dev) 1) 0 2 s'
                  = Some (H_SUCCESS, s'') \<and>
                page_mem s'' = page_mem s'))"
proof -
  have h: "0 < page_shift stt_dev" "page_shift stt_dev < 31"
    "unat (offset stt_dev) + unat (size_stt stt_dev) \<le> 2 ^ (64 - page_shift stt_dev)"
    "offset stt_dev \<le> 1"
    "unat (1 :: u64) + unat (2 :: u64) \<le> unat (offset stt_dev) + unat (size_stt stt_dev)"
    by (simp_all add: stt_dev_def)
  have f: "page_mem rm_state_full 0 2 = 0x20003" by (simp add: rm_state_full_def)
  have i: "1 < unat (2 :: u64)" by simp
  obtain s' where ok: "kvmppc_rm_h_stuff_tce env0 1 (push_bit (page_shift stt_dev) 1) 0 2 rm_state_full
            = Some (H_SUCCESS, s')"
    using stuffed by blast
  show ?thesis
    using find0 h f ok i kvmppc_rm_h_stuff_tce_clear_idempotent [OF find0 h ok]
    by blast
qed

lemma for_each_group_stuff_again_Inl:
  "for_each_group (\<lambda>tbl. kvmppc_rm_h_stuff_tce_iommu env tbl l ioba v npages) kgs tbltmp ret s
     = Inl (r, s1) \<Longrightarrow>
   \<exists>s1'. for_each_group (\<lambda>tbl. kvmppc_rm_h_stuff_tce_iommu env tbl l ioba v npages) kgs tbltmp ret s'
     = Inl (r, s1')"
proof (induction kgs arbitrary: tbltmp ret s s')
  case Nil
  then show ?case by simp
next
  case (Cons kg kgs)
  show ?case
  proof (cases "Some kg = tbltmp")
    case True
    then show ?thesis using Cons.prems Cons.IH by simp
  next
    case False
    show ?thesis
    proof (cases "iommu_tce_clear_param_check env kg ioba v npages")
      case True
      then show ?thesis using Cons.prems False
        by (simp add: kvmppc_rm_h_stuff_tce_iommu_def Let_def)
    next
      case c: False
      then show ?thesis
        using Cons.prems False Cons.IH
        by (simp add: kvmppc_rm_h_stuff_tce_iommu_def Let_def)
    qed
  qed
qed

text \<open>Whatever the first Stuff of 0 returns, the second returns the same and leaves the
  entry store as the first left it.\<close>

lemma kvmppc_rm_h_stuff_tce_twice:
  assumes "kvmppc_rm_h_stuff_tce env l ioba 0 n s = Some (r, s')"
  shows "\<exists>s''. kvmppc_rm_h_stuff_tce env l ioba 0 n s' = Some (r, s'') \<and> page_mem s'' = page_mem s'"
proof (cases "kvmppc_find_table env l")
  case None
  then show ?thesis using assms by (simp add: kvmppc_rm_h_stuff_tce_def)
next
  case (Some stt)
  let ?f = "\<lambda>tbl. kvmppc_rm_h_stuff_tce_iommu env tbl l ioba 0 n"
  show ?thesis
  proof (cases "kvmppc_ioba_validate stt ioba n = H_SUCCESS")
    case False
    then show ?thesis using assms Some by (simp add: kvmppc_rm_h_stuff_tce_def)
  next
    case True
    show ?thesis
    proof (cases "for_each_group ?f (groups stt) None H_SUCCESS s")
      case (Inl a)
      obtain r1 s1 where a: "a = (r1, s1)" by (cases a)
      have rs: "r = r1" "s' = s1"
        using assms Some True Inl a by (simp_all add: kvmppc_rm_h_stuff_tce_def tce_validate_zero)
      obtain s1' where l': "for_each_group ?f (groups stt) None H_SUCCESS s' = Inl (r, s1')"
        using for_each_group_stuff_again_Inl [of env l ioba 0 n "groups stt" None H_SUCCESS s r1 s1 s']
          Inl a rs by auto
      have "page_mem s1' = page_mem s'"
        by (rule for_each_group_page_mem(1) [OF page_mem_stuff_tce_iommu l'])
      then show ?thesis
        using l' Some True by (simp add: kvmppc_rm_h_stuff_tce_def tce_validate_zero)
    next
      case (Inr b)
      obtain r1 s1 where b: "b = (r1, s1)" by (cases b)
      have r: "r = H_SUCCESS" and store: "stuff_store env stt ioba 0 (unat n) s1 = Some s'"
        using assms Some True Inr b
        by (auto simp add: kvmppc_rm_h_stuff_tce_def tce_validate_zero split: option.splits)
      obtain s1' where l': "for_each_group ?f (groups stt) None H_SUCCESS s' = Inr (r1, s1')"
        using for_each_group_stuff_again [of env l ioba 0 n "groups stt" None H_SUCCESS s r1 s1 s']
          Inr b by auto
      have pm: "page_mem s1' = page_mem s'"
        by (rule for_each_group_page_mem(2) [OF page_mem_stuff_tce_iommu l'])
      have "stuff_store env stt ioba 0 (unat n) s1' = Some s1'"
      proof (rule stuff_store_zero_noop)
        fix i assume "i < unat n"
        from stuff_store_zero_written [OF store this]
        show "kvmppc_tce_put env stt
                (drop_bit (page_shift stt)
                   (ioba + of_nat i * scast (push_bit (page_shift stt) (1 :: 32 word)))) 0 s1'
              = Some s1'"
          by (rule kvmppc_tce_put_noop_page_mem [OF _ pm])
      qed
      then show ?thesis
        using l' Some True pm r by (simp add: kvmppc_rm_h_stuff_tce_def tce_validate_zero)
    qed
  qed
qed

end
